theory Spec2Isabelle
  imports Main
begin

section \<open>Python values used by the combat code\<close>

text \<open>
  The exceptions the modelled code can raise: \<open>random.randint\<close> on an empty range
  (ValueError), an out-of-range list subscript or \<open>random.choice\<close> on an empty
  sequence (IndexError), and a float conversion that leaves the double range
  (OverflowError).
\<close>

datatype error = ValueError | IndexError | OverflowError

text \<open>
  The shared random source of module \<open>random\<close> is made explicit: a stream of raw
  naturals, read at its head and advanced by one for each draw.
  \<open>randint lo hi\<close> maps the raw draw into \<open>[lo, hi]\<close> and raises ValueError when
  the range is empty; \<open>choice xs\<close> picks a position of \<open>xs\<close> and raises IndexError
  on the empty sequence. Every value of the range is the result for some raw draw.
\<close>

type_synonym rng = "nat \<Rightarrow> nat"

definition rng_next :: "rng \<Rightarrow> rng" where
  "rng_next g = (\<lambda>n. g (Suc n))"

definition randint :: "int \<Rightarrow> int \<Rightarrow> rng \<Rightarrow> error + (int \<times> rng)" where
  "randint lo hi g =
     (if hi < lo then Inl ValueError
      else Inr (lo + int (g 0 mod nat (hi - lo + 1)), rng_next g))"

definition choice :: "'a list \<Rightarrow> rng \<Rightarrow> error + ('a \<times> rng)" where
  "choice xs g =
     (if xs = [] then Inl IndexError
      else Inr (xs ! (g 0 mod length xs), rng_next g))"

text \<open>Subscripting a list with a Python integer: negative indices count from the end.\<close>

definition py_get :: "'a list \<Rightarrow> int \<Rightarrow> error + 'a" where
  "py_get xs i =
     (if 0 \<le> i \<and> i < int (length xs) then Inr (xs ! nat i)
      else if i < 0 \<and> - int (length xs) \<le> i then Inr (xs ! nat (int (length xs) + i))
      else Inl IndexError)"

text \<open>\<open>str\<close> of an integer, for the f-strings of messages and popups.\<close>

fun digits :: "nat \<Rightarrow> string" where
  "digits n =
     (if n < 10 then [''0123456789'' ! n]
      else digits (n div 10) @ [''0123456789'' ! (n mod 10)])"

declare digits.simps [simp del]

definition str_int :: "int \<Rightarrow> string" where
  "str_int i = (if i < 0 then CHR ''-'' # digits (nat (- i)) else digits (nat i))"

subsection \<open>Double-precision arithmetic of \<open>int(base * 1.35 + 6)\<close>\<close>

text \<open>
  A finite double is a pair \<open>(m, e)\<close> standing for \<open>m * 2 ^ e\<close>. Each float
  operation computes the exact result and rounds it to 53 significant bits, ties to
  even. A result of magnitude \<open>2 ^ 1024\<close> or more is reported as OverflowError:
  converting such an int to float raises it at once, and a product that overflows
  becomes infinity, which the final \<open>int(...)\<close> rejects with the same exception.
  Subnormal results do not occur: every value handled is a multiple of \<open>2 ^ -52\<close>.
\<close>

type_synonym dyadic = "int \<times> int"

fun bit_length :: "nat \<Rightarrow> nat" where
  "bit_length n = (if n = 0 then 0 else Suc (bit_length (n div 2)))"

declare bit_length.simps [simp del]

definition round_even :: "int \<Rightarrow> nat \<Rightarrow> int" where
  "round_even m k =
     (let q = m div 2 ^ k; r = m mod 2 ^ k
      in if 2 ^ k < 2 * r \<or> (2 * r = 2 ^ k \<and> odd q) then q + 1 else q)"

definition fl_round :: "dyadic \<Rightarrow> error + dyadic" where
  "fl_round x =
     (let m = fst x; e = snd x;
          k = bit_length (nat \<bar>m\<bar>) - 53;
          q = sgn m * round_even \<bar>m\<bar> k;
          e' = e + int k
      in if 1024 < int (bit_length (nat \<bar>q\<bar>)) + e' then Inl OverflowError
         else Inr (q, e'))"

definition fl_of_int :: "int \<Rightarrow> error + dyadic" where
  "fl_of_int i = fl_round (i, 0)"

definition fl_mul :: "dyadic \<Rightarrow> dyadic \<Rightarrow> error + dyadic" where
  "fl_mul a b = fl_round (fst a * fst b, snd a + snd b)"

definition fl_add :: "dyadic \<Rightarrow> dyadic \<Rightarrow> error + dyadic" where
  "fl_add a b =
     (let e = min (snd a) (snd b)
      in fl_round (fst a * 2 ^ nat (snd a - e) + fst b * 2 ^ nat (snd b - e), e))"

text \<open>\<open>int(x)\<close> of a float truncates toward zero.\<close>

definition fl_trunc :: "dyadic \<Rightarrow> int" where
  "fl_trunc x =
     (let m = fst x; e = snd x
      in if 0 \<le> e then m * 2 ^ nat e else sgn m * (\<bar>m\<bar> div 2 ^ nat (- e)))"

text \<open>The literal \<open>1.35\<close> is the double \<open>0x1.599999999999ap+0\<close>.\<close>

definition float_1_35 :: dyadic where
  "float_1_35 = (6079859496950170, - 52)"

text \<open>\<open>int(base * 1.35 + 6)\<close> for a Python int \<open>base\<close>.\<close>

definition special_of_base :: "int \<Rightarrow> error + int" where
  "special_of_base base =
     (case fl_of_int base of Inl err \<Rightarrow> Inl err
      | Inr b \<Rightarrow>
         (case fl_mul b float_1_35 of Inl err \<Rightarrow> Inl err
          | Inr p \<Rightarrow>
             (case fl_add p (6, 0) of Inl err \<Rightarrow> Inl err
              | Inr s \<Rightarrow> Inr (fl_trunc s))))"

section \<open>Creature (creature.py)\<close>

text \<open>
  The fields of class \<open>Creature\<close>; the sprite surface is presentation only and is
  left out.
\<close>

record creature =
  element :: string
  level :: int
  max_health :: int
  current_health :: int
  damage_min :: int
  damage_max :: int
  max_special_uses :: int
  special_uses :: int

definition Creature_init :: "string \<Rightarrow> int \<Rightarrow> creature" where
  "Creature_init el lv =
     \<lparr> element = el, level = lv, max_health = 1, current_health = 1,
       damage_min = 1, damage_max = 1, max_special_uses = 1, special_uses = 1 \<rparr>"

definition configure_stats :: "creature \<Rightarrow> int \<Rightarrow> int \<Rightarrow> int \<Rightarrow> int \<Rightarrow> int \<Rightarrow> creature" where
  "configure_stats c base_hp hp_per_level base_dmg_min base_dmg_max dmg_per_level =
     c \<lparr> max_health := base_hp + level c * hp_per_level,
         current_health := base_hp + level c * hp_per_level,
         damage_min := base_dmg_min + level c * dmg_per_level,
         damage_max := base_dmg_max + level c * dmg_per_level \<rparr>"

definition roll_damage :: "creature \<Rightarrow> rng \<Rightarrow> error + (int \<times> rng)" where
  "roll_damage c g = randint (damage_min c) (damage_max c) g"

definition roll_special_damage :: "creature \<Rightarrow> rng \<Rightarrow> error + (int \<times> rng)" where
  "roll_special_damage c g =
     (case roll_damage c g of Inl err \<Rightarrow> Inl err
      | Inr (base, g') \<Rightarrow>
         (case special_of_base base of Inl err \<Rightarrow> Inl err
          | Inr d \<Rightarrow> Inr (d, g')))"

definition take_damage :: "creature \<Rightarrow> int \<Rightarrow> creature" where
  "take_damage c amount = c \<lparr> current_health := current_health c - amount \<rparr>"

definition is_defeated :: "creature \<Rightarrow> bool" where
  "is_defeated c \<longleftrightarrow> current_health c \<le> 0"

definition level_up :: "creature \<Rightarrow> creature" where
  "level_up c = c \<lparr> level := level c + 1 \<rparr>"

definition reset_after_battle :: "creature \<Rightarrow> creature" where
  "reset_after_battle c =
     c \<lparr> current_health := max_health c, special_uses := max_special_uses c \<rparr>"

section \<open>Battle (battle.py)\<close>

text \<open>
  \<open>outcome\<close> is \<open>None\<close> while the battle is undecided, then "WIN" or "LOSE".
\<close>

datatype verdict = WIN | LOSE

text \<open>A \<open>pygame.Rect\<close>: left, top, width, height.\<close>

record rect =
  rx :: int
  ry :: int
  rw :: int
  rh :: int

text \<open>
  \<open>Rect.collidepoint\<close>: the left and top edges belong to the rectangle, the right
  and bottom edges do not.
\<close>

definition collidepoint :: "rect \<Rightarrow> int \<times> int \<Rightarrow> bool" where
  "collidepoint r p \<longleftrightarrow>
     rx r \<le> fst p \<and> fst p < rx r + rw r \<and> ry r \<le> snd p \<and> snd p < ry r + rh r"

text \<open>
  A damage popup (the dicts of \<open>self.popups\<close>): text, position and colour. The
  remaining lifetime, which only \<open>update(dt)\<close> reads, is left out.
\<close>

record popup =
  ptext :: string
  ppos :: "int \<times> int"
  pcolor :: "int \<times> int \<times> int"

text \<open>
  \<open>_compute_layout\<close> derives the layout from the screen size by floating-point
  scaling, once, at construction. Its results are taken as given integers:
  the sprite size, the position of the player's sprite, the two button rectangles,
  and the three numbers \<open>_recompute_enemy_positions\<close> recomputes from the same
  screen size at every call: the padding \<open>int(24 * scale)\<close>, the right margin
  \<open>int(120 * scale)\<close> and the row height \<open>int(screen_height * 0.23)\<close>.
\<close>

record layout =
  screen_width :: int
  sprite_size :: "int \<times> int"
  left_pos :: "int \<times> int"
  attack_rect :: rect
  special_rect :: rect
  pad :: int
  margin :: int
  row_y :: int

text \<open>
  The state of a \<open>Battle\<close>. Creatures are held by value: the player and the
  opponents are distinct objects, as \<open>main.py\<close> creates them. Fonts, sprites and
  sounds are presentation only and are left out.
\<close>

record battle =
  player :: creature
  enemies :: "creature list"
  outcome :: "verdict option"
  target_index :: int
  message :: string
  popups :: "popup list"
  lay :: layout
  enemy_positions :: "(int \<times> int) list"

text \<open>The pygame events \<open>handle_event\<close> distinguishes.\<close>

datatype key = K_LEFT | K_a | K_RIGHT | K_d | K_RETURN | K_SPACE | K_s | K_x | K_OTHER

datatype event =
    KEYDOWN key
  | MOUSEBUTTONDOWN int "int \<times> int"
  | OTHER_EVENT

text \<open>
  The constructor argument \<open>enemy\<close> is one creature or a list of creatures
  (\<open>enemy if isinstance(enemy, list) else [enemy]\<close>).
\<close>

datatype enemy_arg = One creature | Many "creature list"

definition alive_enemies :: "battle \<Rightarrow> creature list" where
  "alive_enemies s = filter (\<lambda>c. \<not> is_defeated c) (enemies s)"

text \<open>
  The same view as positions in \<open>self.enemies\<close>: the model's stand-in for the
  object references the list \<open>alive\<close> holds in the source.
\<close>

definition alive_indices :: "battle \<Rightarrow> nat list" where
  "alive_indices s =
     filter (\<lambda>i. \<not> is_defeated (enemies s ! i)) [0 ..< length (enemies s)]"

definition build_intro_message :: "creature list \<Rightarrow> string" where
  "build_intro_message es =
     (let names = map element es
      in if names = [] then ''An eerie silence fills the battlefield...''
         else if length names = 1 then ''A wild '' @ hd names @ '' creature appears!''
         else str_int (int (length names)) @ '' enemies appear!'')"

definition recompute_enemy_positions :: "battle \<Rightarrow> battle" where
  "recompute_enemy_positions s =
     (let count = max 1 (length (alive_enemies s));
          w = fst (sprite_size (lay s));
          total_w = int count * w + (int count - 1) * pad (lay s);
          start_x = screen_width (lay s) - margin (lay s) - total_w
      in s \<lparr> enemy_positions :=
               map (\<lambda>i. (start_x + int i * (w + pad (lay s)), row_y (lay s))) [0 ..< count] \<rparr>)"

text \<open>
  The constructor. It has no raise of its own; its result is a sum so that the
  question whether construction fails can be asked of it.
\<close>

definition Battle_init :: "creature \<Rightarrow> enemy_arg \<Rightarrow> layout \<Rightarrow> error + battle" where
  "Battle_init p enemy l =
     (let es = (case enemy of Many xs \<Rightarrow> xs | One c \<Rightarrow> [c])
      in Inr (recompute_enemy_positions
           \<lparr> player = p, enemies = es, outcome = None, target_index = 0,
             message = build_intro_message es, popups = [], lay = l,
             enemy_positions = [] \<rparr>))"

definition add_popup :: "battle \<Rightarrow> string \<Rightarrow> int \<times> int \<Rightarrow> int \<times> int \<times> int \<Rightarrow> battle" where
  "add_popup s t p c = s \<lparr> popups := popups s @ [\<lparr> ptext = t, ppos = p, pcolor = c \<rparr>] \<rparr>"

text \<open>
  \<open>_get_target\<close> clamps \<open>target_index\<close> and returns the target with it. The target
  is returned as its position in \<open>self.enemies\<close>; the subscript \<open>alive[target_index]\<close>
  is in range after the clamp.
\<close>

definition clamp_target :: "battle \<Rightarrow> int" where
  "clamp_target s = max 0 (min (target_index s) (int (length (alive_enemies s)) - 1))"

definition get_target :: "battle \<Rightarrow> (nat \<times> int) option \<times> battle" where
  "get_target s =
     (let alive = alive_indices s
      in if alive = [] then (None, s)
         else let s' = s \<lparr> target_index := clamp_target s \<rparr>
              in (Some (alive ! nat (target_index s'), target_index s'), s'))"

definition enemy_at_pos :: "battle \<Rightarrow> int \<times> int \<Rightarrow> nat option" where
  "enemy_at_pos s mouse_pos =
     map_option fst
       (find (\<lambda>(idx, (enemy, p)).
                collidepoint \<lparr> rx = fst p, ry = snd p,
                               rw = fst (sprite_size (lay s)), rh = snd (sprite_size (lay s)) \<rparr>
                  mouse_pos)
          (enumerate 0 (zip (alive_enemies s) (enemy_positions s))))"

definition is_clicked :: "rect \<Rightarrow> event \<Rightarrow> bool" where
  "is_clicked r ev =
     (case ev of MOUSEBUTTONDOWN button p \<Rightarrow> button = 1 \<and> collidepoint r p | _ \<Rightarrow> False)"

text \<open>
  The body of the loop of the area special attack, over \<open>enumerate(list(alive))\<close>:
  each element is the loop index with the opponent's position in \<open>self.enemies\<close>.
\<close>

fun special_loop ::
  "(nat \<times> nat) list \<Rightarrow> battle \<Rightarrow> int \<Rightarrow> rng \<Rightarrow> error + (battle \<times> int \<times> rng)" where
  "special_loop [] s total_damage g = Inr (s, total_damage, g)"
| "special_loop ((idx, ei) # rest) s total_damage g =
     (case roll_special_damage (player s) g of Inl err \<Rightarrow> Inl err
      | Inr (damage, g') \<Rightarrow>
         (let s1 = s \<lparr> enemies := (enemies s)[ei := take_damage (enemies s ! ei) damage] \<rparr>
          in case py_get (enemy_positions s1) (int idx) of Inl err \<Rightarrow> Inl err
             | Inr popup_pos \<Rightarrow>
                 special_loop rest
                   (add_popup s1 (''-'' @ str_int damage)
                      (fst popup_pos + 60, snd popup_pos - 10) (255, 180, 120))
                   (total_damage + damage) g'))"

text \<open>
  The counterattack, written twice in \<open>_player_attack\<close> (after the area special
  and after a single-target attack) with the same statements; only the message
  differs, so it is a parameter here.
\<close>

definition enemy_counter :: "battle \<Rightarrow> rng \<Rightarrow> (int \<Rightarrow> string) \<Rightarrow> error + (battle \<times> rng)" where
  "enemy_counter s g msg =
     (case choice (alive_enemies s) g of Inl err \<Rightarrow> Inl err
      | Inr (counter, g1) \<Rightarrow>
         (case roll_damage counter g1 of Inl err \<Rightarrow> Inl err
          | Inr (enemy_damage, g2) \<Rightarrow>
             (let s1 = s \<lparr> player := take_damage (player s) enemy_damage \<rparr>;
                  s2 = add_popup s1 (''-'' @ str_int enemy_damage)
                         (fst (left_pos (lay s1)) + 60, snd (left_pos (lay s1)) - 10)
                         (255, 120, 120);
                  s3 = s2 \<lparr> message := msg enemy_damage \<rparr>
              in if is_defeated (player s3)
                 then Inr (s3 \<lparr> outcome := Some LOSE, message := ''You have been defeated!'' \<rparr>, g2)
                 else Inr (s3, g2))))"

definition reclamp :: "battle \<Rightarrow> battle" where
  "reclamp s = (let s1 = recompute_enemy_positions s in s1 \<lparr> target_index := clamp_target s1 \<rparr>)"

definition player_attack :: "battle \<Rightarrow> bool \<Rightarrow> rng \<Rightarrow> error + (battle \<times> rng)" where
  "player_attack s use_special g =
     (if use_special \<and> special_uses (player s) \<le> 0 then Inr (s, g)
      else if alive_indices s = []
      then Inr (s \<lparr> outcome := Some WIN, message := ''Enemy defeated!'' \<rparr>, g)
      else if use_special \<and> 1 < length (alive_indices s)
      then
        (let s1 = s \<lparr> player := (player s) \<lparr> special_uses := special_uses (player s) - 1 \<rparr> \<rparr>
         in case special_loop (enumerate 0 (alive_indices s)) s1 0 g of Inl err \<Rightarrow> Inl err
            | Inr (s2, total_damage, g2) \<Rightarrow>
                if alive_enemies s2 = []
                then Inr (s2 \<lparr> outcome := Some WIN, message := ''Enemies defeated!'' \<rparr>, g2)
                else enemy_counter (reclamp s2) g2
                       (\<lambda>enemy_damage. ''Special hit all enemies for '' @ str_int total_damage
                          @ '' total. Enemy hit back for '' @ str_int enemy_damage @ ''.''))
      else
        (case get_target s of
           (None, s1) \<Rightarrow> Inr (s1 \<lparr> outcome := Some WIN, message := ''Enemy defeated!'' \<rparr>, g)
         | (Some (ei, ti), s1) \<Rightarrow>
            (case (if use_special
                   then (case roll_special_damage (player s1) g of Inl err \<Rightarrow> Inl err
                         | Inr (d, g') \<Rightarrow>
                             Inr (d, s1 \<lparr> player := (player s1)
                                     \<lparr> special_uses := special_uses (player s1) - 1 \<rparr> \<rparr>, g'))
                   else (case roll_damage (player s1) g of Inl err \<Rightarrow> Inl err
                         | Inr (d, g') \<Rightarrow> Inr (d, s1, g')))
             of Inl err \<Rightarrow> Inl err
             | Inr (damage, s2, g2) \<Rightarrow>
                (let s3 = s2 \<lparr> enemies := (enemies s2)[ei := take_damage (enemies s2 ! ei) damage] \<rparr>
                 in case py_get (enemy_positions s3) ti of Inl err \<Rightarrow> Inl err
                    | Inr popup_pos \<Rightarrow>
                       (let s4 = add_popup s3 (''-'' @ str_int damage)
                                   (fst popup_pos + 60, snd popup_pos - 10) (255, 180, 120);
                            msg = (\<lambda>enemy_damage. ''You dealt '' @ str_int damage
                                     @ ''. Enemy hit back for '' @ str_int enemy_damage @ ''.'')
                        in if is_defeated (enemies s4 ! ei)
                           then if alive_enemies s4 = []
                                then Inr (s4 \<lparr> outcome := Some WIN,
                                               message := ''Enemy defeated!'' \<rparr>, g2)
                                else enemy_counter (reclamp s4) g2 msg
                           else enemy_counter s4 g2 msg)))))"

definition special_or_message :: "battle \<Rightarrow> rng \<Rightarrow> error + (battle \<times> rng)" where
  "special_or_message s g =
     (if 0 < special_uses (player s) then player_attack s True g
      else Inr (s \<lparr> message := ''No special uses left!'' \<rparr>, g))"

definition handle_event :: "battle \<Rightarrow> event \<Rightarrow> rng \<Rightarrow> error + (battle \<times> rng)" where
  "handle_event s ev g =
     (if outcome s \<noteq> None then Inr (s, g)
      else
        (let n = int (length (alive_enemies s));
             buttons =
               (if is_clicked (attack_rect (lay s)) ev then player_attack s False g
                else if is_clicked (special_rect (lay s)) ev then special_or_message s g
                else Inr (s, g));
             mouse =
               (case ev of
                  MOUSEBUTTONDOWN button p \<Rightarrow>
                    (if button = 1
                     then (case enemy_at_pos s p of
                             Some clicked \<Rightarrow> Inr (s \<lparr> target_index := int clicked \<rparr>, g)
                           | None \<Rightarrow> buttons)
                     else buttons)
                | _ \<Rightarrow> buttons)
         in case ev of
              KEYDOWN k \<Rightarrow>
                (if k = K_LEFT \<or> k = K_a
                 then Inr (if n \<noteq> 0 then s \<lparr> target_index := (target_index s - 1) mod n \<rparr> else s, g)
                 else if k = K_RIGHT \<or> k = K_d
                 then Inr (if n \<noteq> 0 then s \<lparr> target_index := (target_index s + 1) mod n \<rparr> else s, g)
                 else if k = K_RETURN \<or> k = K_SPACE then player_attack s False g
                 else if k = K_s \<or> k = K_x then special_or_message s g
                 else mouse)
            | _ \<Rightarrow> mouse))"

section \<open>Player intents, sessions and the target invariant\<close>

text \<open>
  The events that \<open>handle_event\<close> routes to a basic attack, to a special attack,
  to target cycling and to target selection by click, while the battle is
  undecided. A click counts for a button only when it hits no opponent sprite,
  and for the special button only when it does not hit the attack button,
  following the order of the tests in \<open>handle_event\<close>.
\<close>

definition attack_event :: "battle \<Rightarrow> event \<Rightarrow> bool" where
  "attack_event s ev =
     (case ev of
        KEYDOWN k \<Rightarrow> k = K_RETURN \<or> k = K_SPACE
      | MOUSEBUTTONDOWN button p \<Rightarrow>
          button = 1 \<and> enemy_at_pos s p = None \<and> collidepoint (attack_rect (lay s)) p
      | OTHER_EVENT \<Rightarrow> False)"

definition special_event :: "battle \<Rightarrow> event \<Rightarrow> bool" where
  "special_event s ev =
     (case ev of
        KEYDOWN k \<Rightarrow> k = K_s \<or> k = K_x
      | MOUSEBUTTONDOWN button p \<Rightarrow>
          button = 1 \<and> enemy_at_pos s p = None
          \<and> \<not> collidepoint (attack_rect (lay s)) p \<and> collidepoint (special_rect (lay s)) p
      | OTHER_EVENT \<Rightarrow> False)"

definition cycle_event :: "event \<Rightarrow> bool" where
  "cycle_event ev =
     (case ev of KEYDOWN k \<Rightarrow> k = K_LEFT \<or> k = K_a \<or> k = K_RIGHT \<or> k = K_d | _ \<Rightarrow> False)"

definition click_target_event :: "battle \<Rightarrow> event \<Rightarrow> bool" where
  "click_target_event s ev =
     (case ev of MOUSEBUTTONDOWN button p \<Rightarrow> button = 1 \<and> enemy_at_pos s p \<noteq> None
      | _ \<Rightarrow> False)"

text \<open>An attack that is carried out: a basic attack, or a special attack with a use left.\<close>

definition attack_action :: "battle \<Rightarrow> event \<Rightarrow> bool" where
  "attack_action s ev \<longleftrightarrow>
     attack_event s ev \<or> (special_event s ev \<and> 0 < special_uses (player s))"

text \<open>
  \<open>target_index\<close> points into the alive view: it lies in \<open>[0, aliveCount - 1]\<close>
  whenever an opponent is alive.
\<close>

definition target_in_range :: "battle \<Rightarrow> bool" where
  "target_in_range s \<longleftrightarrow>
     (alive_enemies s = [] \<or>
      (0 \<le> target_index s \<and> target_index s \<le> int (length (alive_enemies s)) - 1))"

text \<open>
  The states of a session: what the constructor returns, and what any event
  handled without an exception leads to.
\<close>

inductive session_state :: "battle \<Rightarrow> bool" where
  constructed: "Battle_init p enemy l = Inr s \<Longrightarrow> session_state s"
| handled: "session_state s \<Longrightarrow> handle_event s ev g = Inr (s', g') \<Longrightarrow> session_state s'"

text \<open>The colours of the two kinds of popup: a hit on an opponent, a hit on the player.\<close>

definition hit_color :: "int \<times> int \<times> int" where
  "hit_color = (255, 180, 120)"

definition counter_color :: "int \<times> int \<times> int" where
  "counter_color = (255, 120, 120)"

subsection \<open>The two halves of an attack\<close>

text \<open>The popup of a hit of damage \<open>d\<close> on the opponent drawn at \<open>pp\<close>.\<close>

definition hit_popup :: "int \<Rightarrow> int \<times> int \<Rightarrow> popup" where
  "hit_popup d pp =
     \<lparr> ptext = ''-'' @ str_int d, ppos = (fst pp + 60, snd pp - 10), pcolor = hit_color \<rparr>"

text \<open>The state after the player's half of a single-target attack.\<close>

definition single_hit :: "battle \<Rightarrow> bool \<Rightarrow> int \<Rightarrow> int \<times> int \<Rightarrow> battle" where
  "single_hit s sp d pp =
     s \<lparr> target_index := clamp_target s,
         player := (player s) \<lparr> special_uses := special_uses (player s) - (if sp then 1 else 0) \<rparr>,
         enemies := (enemies s)[alive_indices s ! nat (clamp_target s) :=
                      take_damage (enemies s ! (alive_indices s ! nat (clamp_target s))) d],
         popups := popups s @ [\<lparr> ptext = ''-'' @ str_int d,
                      ppos = (fst pp + 60, snd pp - 10), pcolor = hit_color \<rparr>] \<rparr>"

text \<open>What the player's half of an attack leaves: hits on opponents only.\<close>

definition hits_only :: "battle \<Rightarrow> bool \<Rightarrow> battle \<Rightarrow> bool" where
  "hits_only s sp mid \<longleftrightarrow>
     outcome mid = outcome s \<and> lay mid = lay s
     \<and> current_health (player mid) = current_health (player s)
     \<and> special_uses (player mid) = special_uses (player s) - (if sp then 1 else 0)
     \<and> (\<exists>new. popups mid = popups s @ new \<and> (\<forall>p \<in> set new. pcolor p = hit_color))"

subsection \<open>Well-formed sessions\<close>

text \<open>
  The conditions under which no statement of an attack raises: the player's
  damage range is non-empty, non-negative and below \<open>2 ^ 45\<close>, every
  opponent's damage range is non-empty, and there is a drawing position for every
  opponent alive.
\<close>

definition stats_ok :: "battle \<Rightarrow> bool" where
  "stats_ok s \<longleftrightarrow>
     0 \<le> damage_min (player s) \<and> damage_min (player s) \<le> damage_max (player s)
     \<and> damage_max (player s) < 2 ^ 45
     \<and> list_all (\<lambda>c. damage_min c \<le> damage_max c) (enemies s)"

definition well_formed :: "battle \<Rightarrow> bool" where
  "well_formed s \<longleftrightarrow> stats_ok s \<and> length (alive_enemies s) \<le> length (enemy_positions s)"

section \<open>Concrete sessions\<close>

text \<open>
  The layout of the default 1024 x 768 screen (scale 1), and creatures with given
  health, damage range and special uses.
\<close>

definition std_layout :: layout where
  "std_layout =
     \<lparr> screen_width = 1024, sprite_size = (180, 180), left_pos = (120, 176),
       attack_rect = \<lparr> rx = 248, ry = 614, rw = 220, rh = 56 \<rparr>,
       special_rect = \<lparr> rx = 555, ry = 614, rw = 220, rh = 56 \<rparr>,
       pad = 24, margin = 120, row_y = 176 \<rparr>"

definition mk_creature :: "int \<Rightarrow> int \<Rightarrow> int \<Rightarrow> int \<Rightarrow> creature" where
  "mk_creature hp dmin dmax su =
     (Creature_init ''fire'' 1)
       \<lparr> max_health := hp, current_health := hp, damage_min := dmin, damage_max := dmax,
         max_special_uses := su, special_uses := su \<rparr>"

definition zero_rng :: rng where
  "zero_rng = (\<lambda>n. 0)"

definition session_of :: "creature \<Rightarrow> creature list \<Rightarrow> battle" where
  "session_of p es =
     recompute_enemy_positions
       \<lparr> player = p, enemies = es, outcome = None, target_index = 0,
         message = build_intro_message es, popups = [], lay = std_layout,
         enemy_positions = [] \<rparr>"

text \<open>Scenario A: one opponent, killed by the first basic attack.\<close>

definition scenario_A :: battle where
  "scenario_A = session_of (mk_creature 100 10 10 1) [mk_creature 10 3 3 0]"

definition scenario_A_won :: battle where
  "scenario_A_won =
     scenario_A \<lparr> enemies := [take_damage (mk_creature 10 3 3 0) 10],
                  outcome := Some WIN, message := ''Enemy defeated!'',
                  popups := [\<lparr> ptext = ''-10'', ppos = (784, 166), pcolor = hit_color \<rparr>] \<rparr>"

text \<open>Two opponents and a player without special uses; a basic attack and its counterattack.\<close>

definition scenario_D :: battle where
  "scenario_D = session_of (mk_creature 100 10 10 0) [mk_creature 50 3 3 0, mk_creature 50 3 3 0]"

definition scenario_D_hit :: battle where
  "scenario_D_hit =
     scenario_D \<lparr> player := take_damage (mk_creature 100 10 10 0) 3,
                  enemies := [take_damage (mk_creature 50 3 3 0) 10, mk_creature 50 3 3 0],
                  message := ''You dealt 10. Enemy hit back for 3.'',
                  popups := [\<lparr> ptext = ''-10'', ppos = (580, 166), pcolor = hit_color \<rparr>,
                             \<lparr> ptext = ''-3'', ppos = (180, 166), pcolor = counter_color \<rparr>] \<rparr>"

text \<open>
  Three opponents of health 5, 50 and 5 and a player whose special damage is 6:
  the last opponent is targeted, then the area special attack defeats the two
  weak opponents and the survivor strikes back.
\<close>

definition scenario_E :: battle where
  "scenario_E =
     session_of (mk_creature 100 0 0 1)
       [mk_creature 5 3 3 0, mk_creature 50 3 3 0, mk_creature 5 3 3 0]"

definition scenario_E_left :: battle where
  "scenario_E_left = scenario_E \<lparr> target_index := 2 \<rparr>"

definition scenario_E_special :: battle where
  "scenario_E_special =
     scenario_E_left
       \<lparr> player := take_damage ((mk_creature 100 0 0 1) \<lparr> special_uses := 0 \<rparr>) 3,
         enemies := [take_damage (mk_creature 5 3 3 0) 6, take_damage (mk_creature 50 3 3 0) 6,
                     take_damage (mk_creature 5 3 3 0) 6],
         target_index := 0,
         message := ''Special hit all enemies for 18 total. Enemy hit back for 3.'',
         popups := [hit_popup 6 (316, 176), hit_popup 6 (520, 176), hit_popup 6 (724, 176),
                    \<lparr> ptext = ''-3'', ppos = (180, 166), pcolor = counter_color \<rparr>],
         enemy_positions := [(724, 176)] \<rparr>"

text \<open>The session the constructor builds from an empty list of opponents.\<close>

definition silent_session :: "creature \<Rightarrow> layout \<Rightarrow> battle" where
  "silent_session p l =
     \<lparr> player = p, enemies = [], outcome = None, target_index = 0,
       message = ''An eerie silence fills the battlefield...'', popups = [], lay = l,
       enemy_positions = [(screen_width l - margin l - fst (sprite_size l), row_y l)] \<rparr>"

section \<open>Creature operations\<close>

text \<open>
  C10. \<open>configure_stats\<close> modifies only \<open>max_health\<close>, \<open>current_health\<close>,
  \<open>damage_min\<close> and \<open>damage_max\<close>: putting these four fields back gives the creature
  it started from. In particular \<open>special_uses\<close>, \<open>max_special_uses\<close>, \<open>level\<close> and
  \<open>element\<close> are unchanged, so a spent special use stays spent; \<open>reset_after_battle\<close>
  is the operation that sets \<open>special_uses\<close> back to \<open>max_special_uses\<close>.
\<close>

theorem configure_stats_frame:
  "(configure_stats c bh hl dmn dmx dl)
     \<lparr> max_health := max_health c, current_health := current_health c,
       damage_min := damage_min c, damage_max := damage_max c \<rparr> = c
   \<and> special_uses (configure_stats c bh hl dmn dmx dl) = special_uses c
   \<and> max_special_uses (configure_stats c bh hl dmn dmx dl) = max_special_uses c
   \<and> level (configure_stats c bh hl dmn dmx dl) = level c
   \<and> element (configure_stats c bh hl dmn dmx dl) = element c
   \<and> special_uses (reset_after_battle (configure_stats c bh hl dmn dmx dl)) = max_special_uses c"
  by (simp add: configure_stats_def reset_after_battle_def)

section \<open>Random draws\<close>


lemma randint_Inr:
  "randint lo hi g = Inr (d, g') \<Longrightarrow> lo \<le> d \<and> d \<le> hi \<and> g' = rng_next g"
proof -
  assume a: "randint lo hi g = Inr (d, g')"
  then have le: "lo \<le> hi" by (auto simp: randint_def split: if_splits)
  from a le have d: "d = lo + int (g 0 mod nat (hi - lo + 1))" and g: "g' = rng_next g"
    by (auto simp: randint_def)
  have "g 0 mod nat (hi - lo + 1) < nat (hi - lo + 1)" using le by simp
  then have "int (g 0 mod nat (hi - lo + 1)) \<le> hi - lo" using le by linarith
  with d g show ?thesis by simp
qed

lemma roll_damage_Inr:
  "roll_damage c g = Inr (d, g') \<Longrightarrow> damage_min c \<le> d \<and> d \<le> damage_max c \<and> g' = rng_next g"
  unfolding roll_damage_def by (rule randint_Inr)

lemma roll_special_damage_Inr:
  "roll_special_damage c g = Inr (d, g') \<Longrightarrow>
     \<exists>base. roll_damage c g = Inr (base, g') \<and> special_of_base base = Inr d \<and> g' = rng_next g"
  by (auto simp: roll_special_damage_def split: sum.splits dest: roll_damage_Inr)

section \<open>The special damage formula\<close>

text \<open>
  Rounding a non-negative exact result \<open>m * 2 ^ e\<close> below \<open>2 ^ j\<close>: the
  mantissa loses at most \<open>j - 53\<close> bits and is the quotient or the quotient
  plus one; nothing is lost when \<open>j \<le> 53\<close>.
\<close>

lemma bit_length_le: "n < 2 ^ j \<Longrightarrow> bit_length n \<le> j"
proof (induction j arbitrary: n)
  case 0
  then show ?case by (simp add: bit_length.simps)
next
  case (Suc j)
  show ?case
  proof (cases "n = 0")
    case True
    then show ?thesis by (simp add: bit_length.simps)
  next
    case False
    from Suc.prems have "n div 2 < 2 ^ j" by simp
    from Suc.IH[OF this] False show ?thesis by (subst bit_length.simps) simp
  qed
qed

lemma round_even_bounds:
  "m div 2 ^ k \<le> round_even m k \<and> round_even m k \<le> m div 2 ^ k + 1"
  by (simp add: round_even_def Let_def)

lemma round_even_0: "round_even m 0 = m"
  by (simp add: round_even_def Let_def)

lemma nat_less_pow2: "0 \<le> (m::int) \<Longrightarrow> m < 2 ^ j \<Longrightarrow> nat m < 2 ^ j"
  by simp

lemma div_pow_le: "(a::int) * 2 ^ k \<le> m \<Longrightarrow> a \<le> m div 2 ^ k"
proof -
  assume "a * 2 ^ k \<le> m"
  then have "a * 2 ^ k div 2 ^ k \<le> m div 2 ^ k" by (intro zdiv_mono1) simp_all
  then show ?thesis by simp
qed

lemma div_pow_mult_le: "(m::int) div 2 ^ k * 2 ^ k \<le> m"
proof -
  have "m div 2 ^ k * 2 ^ k + m mod 2 ^ k = m" by (rule div_mult_mod_eq)
  moreover have "0 \<le> m mod 2 ^ k" by simp
  ultimately show ?thesis by linarith
qed

lemma fl_round_nonneg:
  assumes m0: "0 \<le> m" and mj: "m < 2 ^ j" and ov: "2 * int j + e < 1024"
  shows "\<exists>k q. fl_round (m, e) = Inr (q, e + int k) \<and> k \<le> j - 53
           \<and> m div 2 ^ k \<le> q \<and> q \<le> m div 2 ^ k + 1 \<and> (j \<le> 53 \<longrightarrow> q = m \<and> k = 0)"
proof -
  define k where "k = bit_length (nat m) - 53"
  define q where "q = round_even m k"
  from m0 mj have "nat m < 2 ^ j" by (rule nat_less_pow2)
  then have bl: "bit_length (nat m) \<le> j" by (rule bit_length_le)
  then have kj: "k \<le> j - 53" by (simp add: k_def)
  from round_even_bounds[of m k] have qb: "m div 2 ^ k \<le> q" "q \<le> m div 2 ^ k + 1"
    by (simp_all add: q_def)
  have "0 \<le> m div 2 ^ k" using m0 by (simp add: div_int_pos_iff)
  with qb(1) have q0: "0 \<le> q" by simp
  have "m div 2 ^ k \<le> m" using m0 int_div_le_self by force
  moreover have "(1::int) \<le> 2 ^ j" by simp
  ultimately have "q < 2 * 2 ^ j" using qb(2) mj by linarith
  then have "q < 2 ^ Suc j" by simp
  with q0 have "nat q < 2 ^ Suc j" by (rule nat_less_pow2)
  then have "bit_length (nat q) \<le> Suc j" by (rule bit_length_le)
  with kj ov have noov: "\<not> 1024 < int (bit_length (nat \<bar>q\<bar>)) + (e + int k)"
    using q0 by simp
  have sq: "sgn m * round_even \<bar>m\<bar> k = q"
  proof (cases "m = 0")
    case True
    then show ?thesis by (simp add: q_def round_even_def)
  next
    case False
    with m0 show ?thesis by (simp add: q_def)
  qed
  have "fl_round (m, e) = Inr (q, e + int k)"
    using noov sq m0 by (simp add: fl_round_def Let_def k_def[symmetric])
  moreover have "j \<le> 53 \<longrightarrow> q = m \<and> k = 0"
    using kj by (auto simp: q_def round_even_0)
  ultimately show ?thesis using kj qb by blast
qed

lemma div_between:
  assumes "a * c \<le> x" "x < (a + 1) * c" "0 < (c::int)"
  shows "x div c = a"
proof -
  have r: "0 \<le> x - a * c" "x - a * c < c" using assms by (simp_all add: algebra_simps)
  have "x div c = (a * c + (x - a * c)) div c" by simp
  also have "\<dots> = a + (x - a * c) div c"
  proof (rule div_mult_self3)
    from assms(3) show "c \<noteq> 0" by simp
  qed
  also have "\<dots> = a" using r by simp
  finally show ?thesis .
qed

lemma pow_split: "k \<le> n \<Longrightarrow> (2::int) ^ (n - k) * 2 ^ k = 2 ^ n"
  by (simp add: power_add[symmetric])

lemma round_up_bound: "q \<le> m div 2 ^ k + 1 \<Longrightarrow> q * 2 ^ k \<le> (m::int) + 2 ^ k"
proof -
  assume "q \<le> m div 2 ^ k + 1"
  then have "q * 2 ^ k \<le> (m div 2 ^ k + 1) * 2 ^ k" by (intro mult_right_mono) simp_all
  also have "\<dots> = m div 2 ^ k * 2 ^ k + 2 ^ k" by (simp add: algebra_simps)
  also have "\<dots> \<le> m + 2 ^ k" using div_pow_mult_le[of m k] by simp
  finally show ?thesis .
qed

text \<open>
  For \<open>0 \<le> r < 2 ^ 45\<close> the double computation agrees with integer
  arithmetic. With \<open>T = 2 ^ 52\<close> and \<open>M\<close> the mantissa of \<open>1.35\<close>,
  \<open>20 * M = 27 * T + 8\<close>: the exact product \<open>r * M\<close> lies at most \<open>8 * r / 20\<close>
  above \<open>27 * r / 20\<close> (scaled by \<open>T\<close>), whose fractional part is at most
  \<open>19 / 20\<close>; the two roundings add less than \<open>2 ^ 47\<close>, and neither can
  cross the integer below, which is representable.
\<close>

lemma special_of_base_formula:
  assumes r0: "0 \<le> r" and rB: "r < 2 ^ 45"
  shows "special_of_base r = Inr (r * 135 div 100 + 6)"
proof -
  define n where "n = 27 * r div 20"
  have nr: "r * 135 div 100 = n"
  proof -
    have "r * 135 div 100 = (5 * (27 * r)) div (5 * 20)" by (simp add: algebra_simps)
    also have "\<dots> = 27 * r div 20" by (rule div_mult_mult1) simp
    finally show ?thesis by (simp add: n_def)
  qed
  have n1: "20 * n \<le> 27 * r" and n2: "27 * r \<le> 20 * n + 19" and n0: "0 \<le> n"
    using r0 by (simp_all add: n_def)
  have rB': "r < 35184372088832" using rB by simp
  \<comment> \<open>float(r)\<close>
  have s1: "fl_of_int r = Inr (r, 0)"
  proof -
    from fl_round_nonneg[OF r0 rB, of 0] obtain k q where
      "fl_round (r, 0) = Inr (q, 0 + int k)" "q = r \<and> k = 0" by auto
    then show ?thesis by (simp add: fl_of_int_def)
  qed
  \<comment> \<open>float(r) * 1.35\<close>
  define P where "P = r * 6079859496950170"
  have P0: "0 \<le> P" using r0 by (simp add: P_def)
  have PB: "P < 2 ^ 98" using rB' by (simp add: P_def)
  from fl_round_nonneg[OF P0 PB, of "- 52"] obtain k q where
    rq: "fl_round (P, - 52) = Inr (q, - 52 + int k)" and k45: "k \<le> 45"
    and q1: "P div 2 ^ k \<le> q" and q2: "q \<le> P div 2 ^ k + 1" by auto
  have s2: "fl_mul (r, 0) float_1_35 = Inr (q, - 52 + int k)"
    using rq by (simp add: fl_mul_def float_1_35_def P_def)
  \<comment> \<open>... + 6\<close>
  define S where "S = q + 6 * 2 ^ (52 - k)"
  have pk: "(2::int) ^ (52 - k) * 2 ^ k = 4503599627370496"
    using pow_split[of k 52] k45 by simp
  have nP: "n * 4503599627370496 \<le> P" using n1 r0 by (simp add: P_def)
  have qlow: "n * 2 ^ (52 - k) \<le> q"
  proof -
    have "n * 2 ^ (52 - k) * 2 ^ k \<le> P" using nP pk by (simp add: mult.assoc)
    from div_pow_le[OF this] q1 show ?thesis by simp
  qed
  have qup: "q * 2 ^ k \<le> P + 2 ^ k" using q2 by (rule round_up_bound)
  have k2p: "(2::int) ^ k \<le> 2 ^ 45" using k45 by (intro power_increasing) simp_all
  have q0: "0 \<le> q" using qlow n0 by (smt (verit) mult_nonneg_nonneg zero_le_power)
  have S0: "0 \<le> S" using q0 by (simp add: S_def)
  have Sk: "S * 2 ^ k = q * 2 ^ k + 6 * 4503599627370496"
    using pk by (simp add: S_def algebra_simps)
  have SB: "S < 2 ^ (99 - k)"
  proof -
    have "S * 2 ^ k < 2 ^ 99" using Sk qup PB k2p by simp
    also have "\<dots> = (2::int) ^ (99 - k) * 2 ^ k" using pow_split[of k 99] k45 by simp
    finally show ?thesis by simp
  qed
  have ov: "2 * int (99 - k) + (- 52 + int k) < 1024" using k45 by simp
  from fl_round_nonneg[OF S0 SB ov] obtain k2 q' where
    rq': "fl_round (S, - 52 + int k) = Inr (q', - 52 + int k + int k2)"
    and k2b: "k2 \<le> 99 - k - 53"
    and q'1: "S div 2 ^ k2 \<le> q'" and q'2: "q' \<le> S div 2 ^ k2 + 1" by auto
  have s3: "fl_add (q, - 52 + int k) (6, 0) = Inr (q', - 52 + int k + int k2)"
  proof -
    have "min (- 52 + int k) 0 = - 52 + int k" using k45 by simp
    moreover have "nat (0 - (- 52 + int k)) = 52 - k" using k45 by simp
    ultimately show ?thesis using rq' by (simp add: fl_add_def Let_def S_def)
  qed
  \<comment> \<open>int(...)\<close>
  define d where "d = 52 - k - k2"
  have kk: "k + k2 \<le> 46" using k2b k45 by simp
  have pd: "(2::int) ^ d * 2 ^ k2 = 2 ^ (52 - k)"
    using pow_split[of k2 "52 - k"] kk by (simp add: d_def)
  have low: "(n + 6) * 2 ^ d \<le> q'"
  proof -
    have "(n + 6) * 2 ^ (52 - k) \<le> S" using qlow by (simp add: S_def algebra_simps)
    then have "(n + 6) * 2 ^ d * 2 ^ k2 \<le> S" using pd by (simp add: mult.assoc)
    from div_pow_le[OF this] q'1 show ?thesis by simp
  qed
  have up: "q' < (n + 7) * 2 ^ d"
  proof -
    have a: "q' * 2 ^ k2 \<le> S + 2 ^ k2" using q'2 by (rule round_up_bound)
    have "q' * 2 ^ k2 * 2 ^ k \<le> (S + 2 ^ k2) * 2 ^ k"
      using a by (intro mult_right_mono) simp_all
    also have "\<dots> = S * 2 ^ k + 2 ^ (k + k2)" by (simp add: algebra_simps power_add)
    finally have b: "q' * 2 ^ k2 * 2 ^ k \<le> q * 2 ^ k + 6 * 4503599627370496 + 2 ^ (k + k2)"
      using Sk by simp
    have kk2p: "(2::int) ^ (k + k2) \<le> 2 ^ 46" using kk by (intro power_increasing) simp_all
    have "20 * P \<le> (20 * n + 19) * 4503599627370496 + 8 * r"
      using n2 by (simp add: P_def)
    with b qup k2p kk2p rB' have
      "20 * (q' * 2 ^ k2 * 2 ^ k) < 20 * ((n + 7) * 4503599627370496)" by simp
    then have "q' * 2 ^ k2 * 2 ^ k < (n + 7) * 4503599627370496" by simp
    also have "\<dots> = (n + 7) * 2 ^ d * 2 ^ k2 * 2 ^ k"
      using pd pk by (simp add: mult.assoc)
    finally show ?thesis by simp
  qed
  have dv: "q' div 2 ^ d = n + 6"
  proof -
    have up': "q' < (n + 6 + 1) * 2 ^ d" using up by (simp add: algebra_simps)
    have c: "(0::int) < 2 ^ d" by simp
    from div_between[OF low up' c] show ?thesis .
  qed
  have q'pos: "0 < q'"
  proof -
    have "0 < q' div 2 ^ d" using dv n0 by simp
    then show ?thesis by (simp add: pos_imp_zdiv_pos_iff) (smt (verit) zero_less_power)
  qed
  have s4: "fl_trunc (q', - 52 + int k + int k2) = n + 6"
  proof -
    have "\<not> 0 \<le> - 52 + int k + int k2" using kk by simp
    moreover have "nat (- (- 52 + int k + int k2)) = d" using kk by (simp add: d_def)
    ultimately show ?thesis using dv q'pos by (simp add: fl_trunc_def Let_def)
  qed
  show ?thesis by (simp only: special_of_base_def s1 s2 s3 s4 nr sum.case)
qed

text \<open>The two inputs where the double computation leaves the integer formula.\<close>

lemma special_of_base_neg5: "special_of_base (- 5) = Inr 0"
proof -
  have a: "fl_of_int (- 5) = Inr (- 5, 0)"
    unfolding fl_of_int_def fl_round_def round_even_def Let_def
    by (simp add: bit_length.simps)
  have b: "fl_mul (- 5, 0) float_1_35 = Inr (- 7599824371187712, - 50)"
    unfolding fl_mul_def float_1_35_def fl_round_def round_even_def Let_def
    by (simp add: bit_length.simps)
  have c: "fl_add (- 7599824371187712, - 50) (6, 0) = Inr (- 844424930131968, - 50)"
    unfolding fl_add_def fl_round_def round_even_def Let_def
    by (simp add: bit_length.simps)
  have d: "fl_trunc (- 844424930131968, - 50) = 0"
    unfolding fl_trunc_def Let_def by simp
  show ?thesis by (simp only: special_of_base_def a b c d sum.case)
qed

lemma special_of_base_large:
  "special_of_base 211108473290117 = Inr 284996438941664"
proof -
  have a: "fl_of_int 211108473290117 = Inr (211108473290117, 0)"
    unfolding fl_of_int_def fl_round_def round_even_def Let_def
    by (simp add: bit_length.simps)
  have b: "fl_mul (211108473290117, 0) float_1_35 = Inr (4559943023066528, - 4)"
    unfolding fl_mul_def float_1_35_def fl_round_def round_even_def Let_def
    by (simp add: bit_length.simps)
  have c: "fl_add (4559943023066528, - 4) (6, 0) = Inr (4559943023066624, - 4)"
    unfolding fl_add_def fl_round_def round_even_def Let_def
    by (simp add: bit_length.simps)
  have d: "fl_trunc (4559943023066624, - 4) = 284996438941664"
    unfolding fl_trunc_def Let_def by simp
  show ?thesis by (simp only: special_of_base_def a b c d sum.case)
qed

text \<open>
  C8. For a creature whose damage range lies in \<open>[0, 2 ^ 45)\<close>, the special
  damage derived from any basic roll \<open>r\<close> of the range is
  \<open>floor(r * 135 / 100) + 6\<close>, and \<open>roll_special_damage\<close> returns this value for the
  basic roll it consumes.
\<close>

theorem special_damage_formula:
  assumes "0 \<le> damage_min c" and "damage_min c \<le> damage_max c"
    and "damage_max c < 2 ^ 45"
  shows "(\<forall>r. damage_min c \<le> r \<and> r \<le> damage_max c
            \<longrightarrow> special_of_base r = Inr (r * 135 div 100 + 6))
       \<and> (\<exists>r. damage_min c \<le> r \<and> r \<le> damage_max c
            \<and> roll_damage c g = Inr (r, rng_next g)
            \<and> roll_special_damage c g = Inr (r * 135 div 100 + 6, rng_next g))"
proof -
  have all: "special_of_base r = Inr (r * 135 div 100 + 6)"
    if "damage_min c \<le> r" "r \<le> damage_max c" for r
    using that assms by (intro special_of_base_formula) simp_all
  from assms(2) obtain r where roll: "roll_damage c g = Inr (r, rng_next g)"
    by (simp add: roll_damage_def randint_def)
  from roll_damage_Inr[OF roll] have rng: "damage_min c \<le> r" "r \<le> damage_max c"
    by simp_all
  from roll all[OF rng] have
    "roll_special_damage c g = Inr (r * 135 div 100 + 6, rng_next g)"
    by (simp add: roll_special_damage_def)
  with roll rng all show ?thesis by blast
qed

theorem special_damage_formula_witness:
  "0 \<le> damage_min (mk_creature 100 10 10 1)
   \<and> damage_min (mk_creature 100 10 10 1) \<le> damage_max (mk_creature 100 10 10 1)
   \<and> damage_max (mk_creature 100 10 10 1) < 2 ^ 45
   \<and> special_of_base 10 = Inr 19
   \<and> roll_special_damage (mk_creature 100 10 10 1) zero_rng = Inr (19, zero_rng)"
proof -
  have h: "0 \<le> damage_min (mk_creature 100 10 10 1)"
    "damage_min (mk_creature 100 10 10 1) \<le> damage_max (mk_creature 100 10 10 1)"
    "damage_max (mk_creature 100 10 10 1) < 2 ^ 45"
    by (simp_all add: mk_creature_def)
  have d: "damage_min (mk_creature 100 10 10 1) = 10" "damage_max (mk_creature 100 10 10 1) = 10"
    by (simp_all add: mk_creature_def)
  have z: "rng_next zero_rng = zero_rng" by (simp add: rng_next_def zero_rng_def)
  from special_damage_formula[OF h, of zero_rng] h show ?thesis
    by (auto simp: d z)
qed

text \<open>
  A creature whose roll is \<open>-5\<close> gets the special damage 0, since \<open>int\<close>
  truncates \<open>-0.75\<close> toward zero, where the formula gives \<open>-1\<close>; a creature whose
  roll is 211108473290117 gets one more than the formula, since the product is
  rounded up to the next double.
\<close>

theorem special_damage_counterexample:
  "roll_damage (mk_creature 100 (- 5) (- 5) 1) zero_rng = Inr (- 5, zero_rng)
   \<and> roll_special_damage (mk_creature 100 (- 5) (- 5) 1) zero_rng = Inr (0, zero_rng)
   \<and> (0::int) \<noteq> (- 5) * 135 div 100 + 6
   \<and> roll_damage (mk_creature 100 211108473290117 211108473290117 1) zero_rng
       = Inr (211108473290117, zero_rng)
   \<and> roll_special_damage (mk_creature 100 211108473290117 211108473290117 1) zero_rng
       = Inr (284996438941664, zero_rng)
   \<and> (284996438941664::int) \<noteq> 211108473290117 * 135 div 100 + 6"
  by (simp add: roll_special_damage_def roll_damage_def randint_def mk_creature_def
      special_of_base_neg5 special_of_base_large rng_next_def zero_rng_def)

section \<open>The alive view and the loop of the area attack\<close>

lemma alive_indices_nth: "map (nth (enemies s)) (alive_indices s) = alive_enemies s"
proof -
  have "alive_enemies s = filter (\<lambda>c. \<not> is_defeated c) (map (nth (enemies s)) [0 ..< length (enemies s)])"
    by (simp add: alive_enemies_def map_nth)
  then show ?thesis by (simp add: alive_indices_def filter_map comp_def)
qed

lemma length_alive_indices: "length (alive_indices s) = length (alive_enemies s)"
  by (metis alive_indices_nth length_map)

lemma alive_indices_Nil: "alive_indices s = [] \<longleftrightarrow> alive_enemies s = []"
  by (metis length_alive_indices length_0_conv)

lemma alive_indices_mem:
  "i \<in> set (alive_indices s) \<longleftrightarrow> i < length (enemies s) \<and> \<not> is_defeated (enemies s ! i)"
  by (auto simp: alive_indices_def)

lemma distinct_alive_indices: "distinct (alive_indices s)"
  by (simp add: alive_indices_def)

lemma length_filter_update:
  "i < length xs \<Longrightarrow> P x = P (xs ! i) \<Longrightarrow> length (filter P (xs[i := x])) = length (filter P xs)"
proof (induction xs arbitrary: i)
  case Nil
  then show ?case by simp
next
  case (Cons y ys)
  then show ?case by (cases i) auto
qed

lemma special_loop_frame:
  "special_loop ps s t g = Inr (s', t', g') \<Longrightarrow>
     player s' = player s \<and> outcome s' = outcome s \<and> target_index s' = target_index s
     \<and> message s' = message s \<and> lay s' = lay s \<and> enemy_positions s' = enemy_positions s
     \<and> length (enemies s') = length (enemies s)
     \<and> (\<exists>new. popups s' = popups s @ new \<and> length new = length ps
            \<and> (\<forall>p \<in> set new. pcolor p = hit_color))"
proof (induction ps arbitrary: s t g)
  case Nil
  then show ?case by simp
next
  case (Cons a ps)
  obtain idx ei where a: "a = (idx, ei)" by (cases a)
  from Cons.prems a obtain d g1 pp where
    r: "roll_special_damage (player s) g = Inr (d, g1)" and
    rest: "special_loop ps
             (add_popup (s \<lparr> enemies := (enemies s)[ei := take_damage (enemies s ! ei) d] \<rparr>)
                (''-'' @ str_int d) (fst pp + 60, snd pp - 10) (255, 180, 120))
             (t + d) g1 = Inr (s', t', g')"
    by (auto simp: Let_def split: sum.splits prod.splits)
  from Cons.IH[OF rest] show ?case
    by (auto simp: add_popup_def hit_color_def)
qed

lemma enemy_counter_Inr:
  assumes "enemy_counter s g msg = Inr (s', g')"
  shows "\<exists>c d. alive_enemies s \<noteq> [] \<and> c = alive_enemies s ! (g 0 mod length (alive_enemies s))
           \<and> roll_damage c (rng_next g) = Inr (d, g')
           \<and> s' = s \<lparr> player := take_damage (player s) d,
                      outcome := (if current_health (player s) - d \<le> 0 then Some LOSE else outcome s),
                      message := (if current_health (player s) - d \<le> 0
                                  then ''You have been defeated!'' else msg d),
                      popups := popups s @ [\<lparr> ptext = ''-'' @ str_int d,
                          ppos = (fst (left_pos (lay s)) + 60, snd (left_pos (lay s)) - 10),
                          pcolor = counter_color \<rparr>] \<rparr>"
  using assms
  by (auto simp: enemy_counter_def choice_def Let_def add_popup_def take_damage_def
      is_defeated_def counter_color_def split: sum.splits prod.splits if_splits)


section \<open>The player's attack, branch by branch\<close>

lemma clamp_target_range:
  "alive_enemies s \<noteq> [] \<Longrightarrow>
     0 \<le> clamp_target s \<and> clamp_target s \<le> int (length (alive_enemies s)) - 1"
  by (cases "alive_enemies s") (auto simp: clamp_target_def)

lemma get_target_Some:
  assumes "alive_indices s \<noteq> []"
  shows "get_target s =
           (Some (alive_indices s ! nat (clamp_target s), clamp_target s),
            s \<lparr> target_index := clamp_target s \<rparr>)"
  using assms by (simp add: get_target_def Let_def)

lemma target_alive:
  assumes "alive_indices s \<noteq> []"
  shows "alive_indices s ! nat (clamp_target s) < length (enemies s)
         \<and> \<not> is_defeated (enemies s ! (alive_indices s ! nat (clamp_target s)))"
proof -
  from assms have ne: "alive_enemies s \<noteq> []" by (simp add: alive_indices_Nil)
  from clamp_target_range[OF ne] have "nat (clamp_target s) < length (alive_indices s)"
    by (simp add: length_alive_indices) linarith
  then have "alive_indices s ! nat (clamp_target s) \<in> set (alive_indices s)" by simp
  then show ?thesis by (simp add: alive_indices_mem)
qed

lemma alive_after_hit:
  assumes "i < length (enemies s)" "\<not> is_defeated ((enemies s)[i := y] ! i)"
  shows "filter (\<lambda>c. \<not> is_defeated c) ((enemies s)[i := y]) \<noteq> []"
proof -
  from assms(1) have "(enemies s)[i := y] ! i \<in> set ((enemies s)[i := y])"
    by (simp add: set_update_memI)
  with assms(2) show ?thesis by (auto simp: filter_empty_conv)
qed

lemma player_attack_single_eq:
  assumes ok: "\<not> (sp \<and> special_uses (player s) \<le> 0)"
    and ne: "alive_indices s \<noteq> []"
    and single: "\<not> (sp \<and> 1 < length (alive_indices s))"
  shows "player_attack s sp g =
     (case (if sp then roll_special_damage (player s) g else roll_damage (player s) g) of
        Inl err \<Rightarrow> Inl err
      | Inr (d, g2) \<Rightarrow>
         (case py_get (enemy_positions s) (clamp_target s) of
            Inl err \<Rightarrow> Inl err
          | Inr pp \<Rightarrow>
             if alive_enemies (single_hit s sp d pp) = []
             then Inr ((single_hit s sp d pp)
                          \<lparr> outcome := Some WIN, message := ''Enemy defeated!'' \<rparr>, g2)
             else enemy_counter
                    (if is_defeated (enemies (single_hit s sp d pp)
                                       ! (alive_indices s ! nat (clamp_target s)))
                     then reclamp (single_hit s sp d pp) else single_hit s sp d pp) g2
                    (\<lambda>enemy_damage. ''You dealt '' @ str_int d
                       @ ''. Enemy hit back for '' @ str_int enemy_damage @ ''.'')))"
proof -
  let ?ei = "alive_indices s ! nat (clamp_target s)"
  from target_alive[OF ne] have ei: "?ei < length (enemies s)" by simp
  note nonempty = alive_after_hit[OF ei]
  show ?thesis
  proof (cases sp)
    case True
    with ok ne single nonempty show ?thesis
      by (simp add: player_attack_def get_target_Some single_hit_def add_popup_def
          hit_color_def alive_enemies_def Let_def split: sum.splits prod.splits)
  next
    case False
    with ok ne single nonempty show ?thesis
      by (simp add: player_attack_def get_target_Some single_hit_def add_popup_def
          hit_color_def alive_enemies_def Let_def split: sum.splits prod.splits)
  qed
qed

lemma player_attack_aoe_eq:
  assumes "0 < special_uses (player s)" "1 < length (alive_indices s)"
  shows "player_attack s True g =
     (case special_loop (enumerate 0 (alive_indices s))
             (s \<lparr> player := (player s) \<lparr> special_uses := special_uses (player s) - 1 \<rparr> \<rparr>) 0 g of
        Inl err \<Rightarrow> Inl err
      | Inr (mid, total_damage, g2) \<Rightarrow>
          if alive_enemies mid = []
          then Inr (mid \<lparr> outcome := Some WIN, message := ''Enemies defeated!'' \<rparr>, g2)
          else enemy_counter (reclamp mid) g2
                 (\<lambda>enemy_damage. ''Special hit all enemies for '' @ str_int total_damage
                    @ '' total. Enemy hit back for '' @ str_int enemy_damage @ ''.''))"
proof -
  from assms(2) have "alive_indices s \<noteq> []" by auto
  with assms show ?thesis by (simp add: player_attack_def Let_def)
qed

lemma player_attack_none_alive:
  assumes "\<not> (sp \<and> special_uses (player s) \<le> 0)" "alive_indices s = []"
  shows "player_attack s sp g = Inr (s \<lparr> outcome := Some WIN, message := ''Enemy defeated!'' \<rparr>, g)"
  using assms by (auto simp: player_attack_def)


lemma alive_enemies_update [simp]:
  "alive_enemies (s \<lparr> outcome := a \<rparr>) = alive_enemies s"
  "alive_enemies (s \<lparr> message := b \<rparr>) = alive_enemies s"
  "alive_enemies (s \<lparr> player := c \<rparr>) = alive_enemies s"
  "alive_enemies (s \<lparr> popups := d \<rparr>) = alive_enemies s"
  "alive_enemies (s \<lparr> target_index := e \<rparr>) = alive_enemies s"
  "alive_enemies (s \<lparr> enemy_positions := f \<rparr>) = alive_enemies s"
  by (simp_all add: alive_enemies_def)

lemma reclamp_fields:
  "enemies (reclamp s) = enemies s" "player (reclamp s) = player s"
  "outcome (reclamp s) = outcome s" "popups (reclamp s) = popups s"
  "message (reclamp s) = message s" "lay (reclamp s) = lay s"
  by (simp_all add: reclamp_def recompute_enemy_positions_def Let_def)

lemma alive_reclamp: "alive_enemies (reclamp s) = alive_enemies s"
  by (simp add: alive_enemies_def reclamp_fields)

lemma target_in_range_reclamp: "target_in_range (reclamp s)"
proof (cases "alive_enemies s = []")
  case True
  then show ?thesis by (simp add: target_in_range_def alive_reclamp)
next
  case False
  have "target_index (reclamp s) = clamp_target s"
    by (simp add: reclamp_def recompute_enemy_positions_def Let_def clamp_target_def alive_enemies_def)
  with clamp_target_range[OF False] show ?thesis
    by (simp add: target_in_range_def alive_reclamp)
qed

lemma enemy_counter_fields:
  assumes "enemy_counter s g msg = Inr (s', g')"
  shows "enemies s' = enemies s" "target_index s' = target_index s" "lay s' = lay s"
    "enemy_positions s' = enemy_positions s"
    "special_uses (player s') = special_uses (player s)"
  using enemy_counter_Inr[OF assms] by (auto simp: take_damage_def)

lemma enemy_counter_target:
  assumes "enemy_counter s g msg = Inr (s', g')"
  shows "target_in_range s' \<longleftrightarrow> target_in_range s"
  using enemy_counter_fields[OF assms] by (simp add: target_in_range_def alive_enemies_def)

lemma single_hit_fields:
  "target_index (single_hit s sp d pp) = clamp_target s"
  "enemies (single_hit s sp d pp) =
     (enemies s)[alive_indices s ! nat (clamp_target s) :=
        take_damage (enemies s ! (alive_indices s ! nat (clamp_target s))) d]"
  "outcome (single_hit s sp d pp) = outcome s"
  "lay (single_hit s sp d pp) = lay s"
  "message (single_hit s sp d pp) = message s"
  "current_health (player (single_hit s sp d pp)) = current_health (player s)"
  "special_uses (player (single_hit s sp d pp)) = special_uses (player s) - (if sp then 1 else 0)"
  "popups (single_hit s sp d pp) =
     popups s @ [\<lparr> ptext = ''-'' @ str_int d, ppos = (fst pp + 60, snd pp - 10), pcolor = hit_color \<rparr>]"
  by (simp_all add: single_hit_def)

lemma single_hit_target_survives:
  assumes ne: "alive_indices s \<noteq> []"
    and surv: "\<not> is_defeated (enemies (single_hit s sp d pp) ! (alive_indices s ! nat (clamp_target s)))"
  shows "target_in_range (single_hit s sp d pp)"
proof -
  let ?ei = "alive_indices s ! nat (clamp_target s)"
  from target_alive[OF ne] have ei: "?ei < length (enemies s)"
    and al: "\<not> is_defeated (enemies s ! ?ei)" by simp_all
  from surv ei have "\<not> is_defeated (take_damage (enemies s ! ?ei) d)"
    by (simp add: single_hit_fields)
  with al ei have "length (alive_enemies (single_hit s sp d pp)) = length (alive_enemies s)"
    by (simp add: alive_enemies_def single_hit_fields length_filter_update)
  moreover from ne have "alive_enemies s \<noteq> []" by (simp add: alive_indices_Nil)
  ultimately show ?thesis
    using clamp_target_range[of s] by (simp add: target_in_range_def single_hit_fields)
qed

lemma player_attack_target:
  assumes pa: "player_attack s sp g = Inr (s', g')"
    and ok: "\<not> (sp \<and> special_uses (player s) \<le> 0)"
  shows "target_in_range s'"
proof (cases "alive_indices s = []")
  case True
  with pa ok have "s' = s \<lparr> outcome := Some WIN, message := ''Enemy defeated!'' \<rparr>"
    by (simp add: player_attack_none_alive)
  with True show ?thesis
    by (simp add: target_in_range_def alive_enemies_def alive_indices_Nil)
next
  case ne: False
  show ?thesis
  proof (cases "sp \<and> 1 < length (alive_indices s)")
    case True
    with ok have su: "0 < special_uses (player s)" by simp
    from True have len: "1 < length (alive_indices s)" by simp
    from pa True have "player_attack s True g = Inr (s', g')" by simp
    then show ?thesis
      unfolding player_attack_aoe_eq[OF su len]
      by (auto simp: target_in_range_def[of "_\<lparr>outcome := _, message := _\<rparr>"]
          enemy_counter_target target_in_range_reclamp split: sum.splits prod.splits if_splits)
  next
    case False
    from pa show ?thesis
      unfolding player_attack_single_eq[OF ok ne False]
      by (auto simp: target_in_range_def[of "_\<lparr>outcome := _, message := _\<rparr>"]
          enemy_counter_target target_in_range_reclamp single_hit_target_survives[OF ne]
          split: sum.splits prod.splits if_splits)
  qed
qed


lemma hits_only_reclamp: "hits_only s sp mid \<Longrightarrow> hits_only s sp (reclamp mid)"
  by (simp add: hits_only_def reclamp_fields)

lemma hits_only_single: "hits_only s sp (single_hit s sp d pp)"
  by (simp add: hits_only_def single_hit_fields)

lemma hits_only_loop:
  assumes "special_loop ps
             (s \<lparr> player := (player s) \<lparr> special_uses := special_uses (player s) - 1 \<rparr> \<rparr>) t g
           = Inr (mid, t', g')"
  shows "hits_only s True mid"
  using special_loop_frame[OF assms] by (auto simp: hits_only_def)

text \<open>An attack ends in one of two ways.\<close>

lemma player_attack_phases:
  assumes pa: "player_attack s sp g = Inr (s', g')"
    and ok: "\<not> (sp \<and> special_uses (player s) \<le> 0)"
  shows "(alive_enemies s = [] \<and> s' = s \<lparr> outcome := Some WIN, message := ''Enemy defeated!'' \<rparr>)
       \<or> (alive_enemies s \<noteq> [] \<and>
           (\<exists>mid m. hits_only s sp mid \<and> alive_enemies mid = []
                \<and> s' = mid \<lparr> outcome := Some WIN, message := m \<rparr>))
       \<or> (alive_enemies s \<noteq> [] \<and>
           (\<exists>mid g2 msg. hits_only s sp mid \<and> alive_enemies mid \<noteq> []
                \<and> enemy_counter mid g2 msg = Inr (s', g')))"
proof (cases "alive_indices s = []")
  case True
  with pa ok show ?thesis
    by (simp add: player_attack_none_alive alive_indices_Nil)
next
  case ne: False
  then have ne': "alive_enemies s \<noteq> []" by (simp add: alive_indices_Nil)
  show ?thesis
  proof (cases "sp \<and> 1 < length (alive_indices s)")
    case True
    with ok have su: "0 < special_uses (player s)" by simp
    from True have len: "1 < length (alive_indices s)" by simp
    from pa True have "player_attack s True g = Inr (s', g')" by simp
    then have eq: "(case special_loop (enumerate 0 (alive_indices s))
               (s \<lparr> player := (player s) \<lparr> special_uses := special_uses (player s) - 1 \<rparr> \<rparr>) 0 g of
             Inl err \<Rightarrow> Inl err
           | Inr (mid, total_damage, g2) \<Rightarrow>
               if alive_enemies mid = []
               then Inr (mid \<lparr> outcome := Some WIN, message := ''Enemies defeated!'' \<rparr>, g2)
               else enemy_counter (reclamp mid) g2
                      (\<lambda>enemy_damage. ''Special hit all enemies for '' @ str_int total_damage
                         @ '' total. Enemy hit back for '' @ str_int enemy_damage @ ''.'')) = Inr (s', g')"
      unfolding player_attack_aoe_eq[OF su len] .
    then obtain mid total g2 where
      loop: "special_loop (enumerate 0 (alive_indices s))
               (s \<lparr> player := (player s) \<lparr> special_uses := special_uses (player s) - 1 \<rparr> \<rparr>) 0 g
             = Inr (mid, total, g2)"
      by (cases "special_loop (enumerate 0 (alive_indices s))
               (s \<lparr> player := (player s) \<lparr> special_uses := special_uses (player s) - 1 \<rparr> \<rparr>) 0 g")
         auto
    from eq have
      fin: "(alive_enemies mid = [] \<and> s' = mid \<lparr> outcome := Some WIN, message := ''Enemies defeated!'' \<rparr>)
              \<or> (alive_enemies mid \<noteq> [] \<and> (\<exists>msg. enemy_counter (reclamp mid) g2 msg = Inr (s', g')))"
      unfolding loop by (auto split: if_splits)
    from hits_only_loop[OF loop] True have h: "hits_only s sp mid" by simp
    from fin show ?thesis
    proof
      assume "alive_enemies mid = [] \<and> s' = mid \<lparr> outcome := Some WIN, message := ''Enemies defeated!'' \<rparr>"
      with h ne' show ?thesis by blast
    next
      assume "alive_enemies mid \<noteq> [] \<and> (\<exists>msg. enemy_counter (reclamp mid) g2 msg = Inr (s', g'))"
      then obtain msg where "alive_enemies (reclamp mid) \<noteq> []"
        "enemy_counter (reclamp mid) g2 msg = Inr (s', g')"
        by (auto simp: alive_reclamp)
      with hits_only_reclamp[OF h] ne' show ?thesis by blast
    qed
  next
    case False
    let ?roll = "if sp then roll_special_damage (player s) g else roll_damage (player s) g"
    from pa obtain d g2 where roll: "?roll = Inr (d, g2)"
      unfolding player_attack_single_eq[OF ok ne False]
      by (cases ?roll) auto
    from pa roll obtain pp where pg: "py_get (enemy_positions s) (clamp_target s) = Inr pp"
      unfolding player_attack_single_eq[OF ok ne False]
      by (cases "py_get (enemy_positions s) (clamp_target s)") auto
    from pa have
      fin: "(alive_enemies (single_hit s sp d pp) = []
              \<and> s' = (single_hit s sp d pp) \<lparr> outcome := Some WIN, message := ''Enemy defeated!'' \<rparr>)
          \<or> (alive_enemies (single_hit s sp d pp) \<noteq> [] \<and>
              (\<exists>msg. enemy_counter (reclamp (single_hit s sp d pp)) g2 msg = Inr (s', g')
                  \<or> enemy_counter (single_hit s sp d pp) g2 msg = Inr (s', g')))"
      unfolding player_attack_single_eq[OF ok ne False] roll pg
      by (auto split: if_splits)
    note h = hits_only_single[of s sp d pp]
    from fin show ?thesis
    proof
      assume "alive_enemies (single_hit s sp d pp) = []
              \<and> s' = (single_hit s sp d pp) \<lparr> outcome := Some WIN, message := ''Enemy defeated!'' \<rparr>"
      with h ne' show ?thesis by blast
    next
      assume a: "alive_enemies (single_hit s sp d pp) \<noteq> [] \<and>
              (\<exists>msg. enemy_counter (reclamp (single_hit s sp d pp)) g2 msg = Inr (s', g')
                  \<or> enemy_counter (single_hit s sp d pp) g2 msg = Inr (s', g'))"
      then obtain msg where
        "enemy_counter (reclamp (single_hit s sp d pp)) g2 msg = Inr (s', g')
         \<or> enemy_counter (single_hit s sp d pp) g2 msg = Inr (s', g')" by blast
      then show ?thesis
      proof
        assume "enemy_counter (reclamp (single_hit s sp d pp)) g2 msg = Inr (s', g')"
        moreover from a have "alive_enemies (reclamp (single_hit s sp d pp)) \<noteq> []"
          by (simp add: alive_reclamp)
        ultimately show ?thesis using hits_only_reclamp[OF h] ne' by blast
      next
        assume "enemy_counter (single_hit s sp d pp) g2 msg = Inr (s', g')"
        with a h ne' show ?thesis by blast
      qed
    qed
  qed
qed


section \<open>Dispatch of events\<close>

lemma handle_event_decided: "outcome s \<noteq> None \<Longrightarrow> handle_event s ev g = Inr (s, g)"
  by (simp add: handle_event_def)

lemma handle_attack_event:
  "outcome s = None \<Longrightarrow> attack_event s ev \<Longrightarrow> handle_event s ev g = player_attack s False g"
  by (auto simp: handle_event_def attack_event_def is_clicked_def Let_def split: event.splits key.splits)

lemma handle_special_event:
  "outcome s = None \<Longrightarrow> special_event s ev \<Longrightarrow> handle_event s ev g = special_or_message s g"
  by (auto simp: handle_event_def special_event_def is_clicked_def Let_def split: event.splits key.splits)

lemma find_Some_mem: "find P xs = Some x \<Longrightarrow> x \<in> set xs"
  by (induction xs) (auto split: if_splits)

lemma enemy_at_pos_Some:
  assumes "enemy_at_pos s p = Some i"
  shows "i < length (alive_enemies s)"
proof -
  from assms obtain x where
    f: "find (\<lambda>(idx, (enemy, q)).
            collidepoint \<lparr> rx = fst q, ry = snd q,
                           rw = fst (sprite_size (lay s)), rh = snd (sprite_size (lay s)) \<rparr> p)
       (enumerate 0 (zip (alive_enemies s) (enemy_positions s))) = Some x" and "fst x = i"
    by (auto simp: enemy_at_pos_def)
  from f have "x \<in> set (enumerate 0 (zip (alive_enemies s) (enemy_positions s)))"
    by (rule find_Some_mem)
  with \<open>fst x = i\<close> have "i < length (zip (alive_enemies s) (enemy_positions s))"
    by (cases x) (auto simp: in_set_enumerate_eq)
  then show ?thesis by simp
qed

lemma handle_event_cases:
  "handle_event s ev g = Inr (s, g)
   \<or> (outcome s = None \<and> attack_event s ev \<and> handle_event s ev g = player_attack s False g)
   \<or> (outcome s = None \<and> special_event s ev \<and> handle_event s ev g = special_or_message s g)
   \<or> (outcome s = None \<and> alive_enemies s \<noteq> [] \<and>
        handle_event s ev g =
          Inr (s \<lparr> target_index := (target_index s - 1) mod int (length (alive_enemies s)) \<rparr>, g))
   \<or> (outcome s = None \<and> alive_enemies s \<noteq> [] \<and>
        handle_event s ev g =
          Inr (s \<lparr> target_index := (target_index s + 1) mod int (length (alive_enemies s)) \<rparr>, g))
   \<or> (outcome s = None \<and> (\<exists>i. i < length (alive_enemies s) \<and>
        handle_event s ev g = Inr (s \<lparr> target_index := int i \<rparr>, g)))"
proof (cases "outcome s = None")
  case False
  then show ?thesis by (simp add: handle_event_decided)
next
  case und: True
  show ?thesis
  proof (cases ev)
    case (KEYDOWN k)
    with und show ?thesis
      by (cases k) (simp_all add: handle_event_def attack_event_def special_event_def
          is_clicked_def Let_def)
  next
    case (MOUSEBUTTONDOWN b p)
    show ?thesis
    proof (cases "b = 1 \<and> enemy_at_pos s p \<noteq> None")
      case True
      then obtain i where i: "enemy_at_pos s p = Some i" by auto
      with und True MOUSEBUTTONDOWN enemy_at_pos_Some[OF i] show ?thesis
        by (auto simp: handle_event_def Let_def)
    next
      case False
      with und MOUSEBUTTONDOWN show ?thesis
        by (auto simp: handle_event_def attack_event_def special_event_def
          is_clicked_def Let_def)
    qed
  next
    case OTHER_EVENT
    with und show ?thesis by (simp add: handle_event_def is_clicked_def)
  qed
qed

lemma handle_attack_action:
  assumes "outcome s = None" "attack_action s ev"
  shows "\<exists>sp. \<not> (sp \<and> special_uses (player s) \<le> 0) \<and> handle_event s ev g = player_attack s sp g"
proof -
  from assms(2) consider "attack_event s ev" | "special_event s ev" "0 < special_uses (player s)"
    by (auto simp: attack_action_def)
  then show ?thesis
  proof cases
    case 1
    with assms(1) have "handle_event s ev g = player_attack s False g"
      by (simp add: handle_attack_event)
    then show ?thesis by blast
  next
    case 2
    with assms(1) have "handle_event s ev g = player_attack s True g"
      by (simp add: handle_special_event special_or_message_def)
    with 2 show ?thesis by force
  qed
qed

section \<open>Finishing blow and counterattack\<close>

lemma hit_not_counter: "hit_color \<noteq> counter_color"
  by (simp add: hit_color_def counter_color_def)

text \<open>
  C2. An attack (basic, or special with a use left) issued while the battle is
  undecided and after which no opponent is alive sets the outcome to WIN without
  a counterattack: the player's health is unchanged, and every popup the action
  adds is a hit on an opponent, none is the popup of a counterattack.
\<close>

theorem finishing_blow_no_counter:
  assumes "outcome s = None" and "attack_action s ev"
    and "handle_event s ev g = Inr (s', g')" and "alive_enemies s' = []"
  shows "outcome s' = Some WIN
       \<and> current_health (player s') = current_health (player s)
       \<and> (\<exists>new. popups s' = popups s @ new
              \<and> (\<forall>p \<in> set new. pcolor p = hit_color \<and> pcolor p \<noteq> counter_color))"
proof -
  from handle_attack_action[OF assms(1,2)] assms(3) obtain sp where
    ok: "\<not> (sp \<and> special_uses (player s) \<le> 0)" and pa: "player_attack s sp g = Inr (s', g')"
    by metis
  from player_attack_phases[OF pa ok] show ?thesis
  proof (elim disjE conjE exE)
    assume "s' = s \<lparr> outcome := Some WIN, message := ''Enemy defeated!'' \<rparr>"
    then show ?thesis by simp
  next
    fix mid m
    assume "hits_only s sp mid" "s' = mid \<lparr> outcome := Some WIN, message := m \<rparr>"
    then show ?thesis by (auto simp: hits_only_def hit_not_counter)
  next
    fix mid g2 msg
    assume "alive_enemies mid \<noteq> []" "enemy_counter mid g2 msg = Inr (s', g')"
    with enemy_counter_fields(1)[of mid g2 msg s' g'] assms(4) show ?thesis
      by (simp add: alive_enemies_def)
  qed
qed

text \<open>
  C5. An attack (basic, or special with a use left) issued while the battle is
  undecided and after which an opponent is alive resolves exactly one
  counterattack: one opponent \<open>c\<close> that is alive after the player's damage rolls a
  damage \<open>d\<close> within its range, the player's health drops by \<open>d\<close>, and the popups
  added are the hits on opponents followed by exactly one popup for the player.
  The outcome is LOSE if the player's health is then at most 0, and stays
  undecided otherwise.
\<close>

theorem counterattack_resolved:
  assumes "outcome s = None" and "attack_action s ev"
    and "handle_event s ev g = Inr (s', g')" and "alive_enemies s' \<noteq> []"
  shows "\<exists>c d hits. c \<in> set (alive_enemies s')
           \<and> damage_min c \<le> d \<and> d \<le> damage_max c
           \<and> current_health (player s') = current_health (player s) - d
           \<and> popups s' = popups s @ hits @
                [\<lparr> ptext = ''-'' @ str_int d,
                   ppos = (fst (left_pos (lay s)) + 60, snd (left_pos (lay s)) - 10),
                   pcolor = counter_color \<rparr>]
           \<and> (\<forall>p \<in> set hits. pcolor p = hit_color \<and> pcolor p \<noteq> counter_color)
           \<and> (outcome s' = Some LOSE \<longleftrightarrow> current_health (player s') \<le> 0)
           \<and> (outcome s' = None \<longleftrightarrow> \<not> current_health (player s') \<le> 0)"
proof -
  from handle_attack_action[OF assms(1,2)] assms(3) obtain sp where
    ok: "\<not> (sp \<and> special_uses (player s) \<le> 0)" and pa: "player_attack s sp g = Inr (s', g')"
    by metis
  from player_attack_phases[OF pa ok] show ?thesis
  proof (elim disjE conjE exE)
    assume "alive_enemies s = []" "s' = s \<lparr> outcome := Some WIN, message := ''Enemy defeated!'' \<rparr>"
    with assms(4) show ?thesis by simp
  next
    fix mid m
    assume "alive_enemies mid = []" "s' = mid \<lparr> outcome := Some WIN, message := m \<rparr>"
    with assms(4) show ?thesis by simp
  next
    fix mid g2 msg
    assume h: "hits_only s sp mid" and ne: "alive_enemies mid \<noteq> []"
      and ec: "enemy_counter mid g2 msg = Inr (s', g')"
    from enemy_counter_Inr[OF ec] obtain c d where
      c: "c = alive_enemies mid ! (g2 0 mod length (alive_enemies mid))"
      and roll: "roll_damage c (rng_next g2) = Inr (d, g')"
      and s': "s' = mid \<lparr> player := take_damage (player mid) d,
                      outcome := (if current_health (player mid) - d \<le> 0 then Some LOSE else outcome mid),
                      message := (if current_health (player mid) - d \<le> 0
                                  then ''You have been defeated!'' else msg d),
                      popups := popups mid @ [\<lparr> ptext = ''-'' @ str_int d,
                          ppos = (fst (left_pos (lay mid)) + 60, snd (left_pos (lay mid)) - 10),
                          pcolor = counter_color \<rparr>] \<rparr>"
      by blast
    from c ne have "c \<in> set (alive_enemies mid)" by simp
    moreover from s' have "alive_enemies s' = alive_enemies mid" by (simp add: alive_enemies_def)
    ultimately have cin: "c \<in> set (alive_enemies s')" by simp
    from roll_damage_Inr[OF roll] have d: "damage_min c \<le> d" "d \<le> damage_max c" by simp_all
    from h obtain new where new: "popups mid = popups s @ new" "\<forall>p \<in> set new. pcolor p = hit_color"
      by (auto simp: hits_only_def)
    from h have hp: "current_health (player mid) = current_health (player s)"
      and oc: "outcome mid = None" and ly: "lay mid = lay s"
      using assms(1) by (simp_all add: hits_only_def)
    from s' hp have hp': "current_health (player s') = current_health (player s) - d"
      by (simp add: take_damage_def)
    from s' new ly have pops: "popups s' = popups s @ new @
                [\<lparr> ptext = ''-'' @ str_int d,
                   ppos = (fst (left_pos (lay s)) + 60, snd (left_pos (lay s)) - 10),
                   pcolor = counter_color \<rparr>]" by simp
    from s' hp oc have o1: "outcome s' = Some LOSE \<longleftrightarrow> current_health (player s') \<le> 0"
      and o2: "outcome s' = None \<longleftrightarrow> \<not> current_health (player s') \<le> 0"
      by (simp_all add: take_damage_def)
    from cin d hp' pops new(2) o1 o2 show ?thesis
      by (intro exI[of _ c] exI[of _ d] exI[of _ new]) (simp add: hit_not_counter)
  qed
qed

section \<open>Evaluating the concrete sessions\<close>

lemma rng_next_zero: "rng_next zero_rng = zero_rng"
  by (simp add: rng_next_def zero_rng_def)

lemmas eval_defs = session_of_def mk_creature_def Creature_init_def std_layout_def
  recompute_enemy_positions_def alive_enemies_def alive_indices_def is_defeated_def take_damage_def
  build_intro_message_def handle_event_def player_attack_def special_or_message_def get_target_def clamp_target_def
  enemy_counter_def choice_def roll_damage_def randint_def py_get_def add_popup_def reclamp_def
  is_clicked_def collidepoint_def enemy_at_pos_def hit_color_def counter_color_def
  roll_special_damage_def Let_def zero_rng_def rng_next_def str_int_def digits.simps

lemma scenario_A_step:
  "handle_event scenario_A (KEYDOWN K_RETURN) zero_rng = Inr (scenario_A_won, zero_rng)"
  by (simp add: scenario_A_def scenario_A_won_def eval_defs)

lemma scenario_D_step:
  "handle_event scenario_D (KEYDOWN K_SPACE) zero_rng = Inr (scenario_D_hit, zero_rng)"
  by (simp add: scenario_D_def scenario_D_hit_def eval_defs)

lemma scenario_D_special:
  "handle_event scenario_D (KEYDOWN K_x) zero_rng = Inr (scenario_D \<lparr> message := ''No special uses left!'' \<rparr>, zero_rng)"
  by (simp add: scenario_D_def eval_defs)

lemma scenario_D_right:
  "handle_event scenario_D (KEYDOWN K_RIGHT) zero_rng = Inr (scenario_D \<lparr> target_index := 1 \<rparr>, zero_rng)"
  by (simp add: scenario_D_def eval_defs)

section \<open>Decided battles, rejected specials and the special-use count\<close>

text \<open>
  C1. Once the outcome is decided, \<open>handle_event\<close> returns at once for every
  event: the whole state, and with it outcome, message, every creature's health
  and \<open>target_index\<close>, is unchanged, and no random number is drawn.
\<close>

theorem decided_is_final:
  assumes "outcome s \<noteq> None"
  shows "handle_event s ev g = Inr (s, g)"
  using assms by (rule handle_event_decided)

theorem decided_is_final_witness:
  "outcome scenario_A_won \<noteq> None
   \<and> handle_event scenario_A_won (KEYDOWN K_RETURN) zero_rng = Inr (scenario_A_won, zero_rng)
   \<and> handle_event scenario_A_won (KEYDOWN K_s) zero_rng = Inr (scenario_A_won, zero_rng)
   \<and> handle_event scenario_A_won (KEYDOWN K_LEFT) zero_rng = Inr (scenario_A_won, zero_rng)
   \<and> handle_event scenario_A_won (MOUSEBUTTONDOWN 1 (800, 200)) zero_rng = Inr (scenario_A_won, zero_rng)"
proof -
  have h: "outcome scenario_A_won \<noteq> None" by (simp add: scenario_A_won_def)
  from h decided_is_final[OF h] show ?thesis by simp
qed

text \<open>
  C6. A special attack issued in an undecided battle by a player with no special
  use left changes the message to "No special uses left!" and nothing else: no
  health, not \<open>special_uses\<close>, not \<open>target_index\<close>, not the outcome; no random
  number is drawn.
\<close>

theorem no_special_uses_left:
  assumes "outcome s = None" and "special_event s ev" and "special_uses (player s) = 0"
  shows "handle_event s ev g = Inr (s \<lparr> message := ''No special uses left!'' \<rparr>, g)"
  using assms by (simp add: handle_special_event special_or_message_def)

theorem no_special_uses_left_witness:
  "outcome scenario_D = None \<and> special_event scenario_D (KEYDOWN K_x)
   \<and> special_uses (player scenario_D) = 0
   \<and> handle_event scenario_D (KEYDOWN K_x) zero_rng
       = Inr (scenario_D \<lparr> message := ''No special uses left!'' \<rparr>, zero_rng)"
proof -
  have h1: "outcome scenario_D = None"
    by (simp add: scenario_D_def session_of_def recompute_enemy_positions_def Let_def)
  have h2: "special_event scenario_D (KEYDOWN K_x)" by (simp add: special_event_def)
  have h3: "special_uses (player scenario_D) = 0"
    by (simp add: scenario_D_def session_of_def recompute_enemy_positions_def Let_def
        mk_creature_def)
  from h1 h2 h3 no_special_uses_left[OF h1 h2 h3] show ?thesis by simp
qed

lemma player_attack_special_uses:
  assumes pa: "player_attack s sp g = Inr (s', g')"
  shows "special_uses (player s') =
           special_uses (player s)
             - (if sp \<and> 0 < special_uses (player s) \<and> alive_enemies s \<noteq> [] then 1 else 0)"
proof (cases "sp \<and> special_uses (player s) \<le> 0")
  case True
  with pa show ?thesis by (auto simp: player_attack_def)
next
  case False
  from player_attack_phases[OF pa False] show ?thesis
  proof (elim disjE conjE exE)
    assume "alive_enemies s = []" "s' = s \<lparr> outcome := Some WIN, message := ''Enemy defeated!'' \<rparr>"
    then show ?thesis by simp
  next
    fix mid m
    assume "alive_enemies s \<noteq> []" "hits_only s sp mid" "s' = mid \<lparr> outcome := Some WIN, message := m \<rparr>"
    with False show ?thesis by (auto simp: hits_only_def)
  next
    fix mid g2 msg
    assume "alive_enemies s \<noteq> []" "hits_only s sp mid" "enemy_counter mid g2 msg = Inr (s', g')"
    with False enemy_counter_fields(5)[of mid g2 msg s' g'] show ?thesis
      by (auto simp: hits_only_def)
  qed
qed

lemma handle_event_other:
  assumes "\<not> attack_event s ev" "\<not> special_event s ev"
  shows "\<exists>t. handle_event s ev g = Inr (s \<lparr> target_index := t \<rparr>, g)"
proof -
  have "s = s \<lparr> target_index := target_index s \<rparr>" by simp
  with handle_event_cases[of s ev g] assms show ?thesis by metis
qed

lemma attack_not_special: "attack_event s ev \<Longrightarrow> \<not> special_event s ev"
  by (auto simp: attack_event_def special_event_def split: event.splits)

lemma handle_event_special_uses:
  assumes he: "handle_event s ev g = Inr (s', g')"
  shows "special_uses (player s') =
           special_uses (player s)
             - (if outcome s = None \<and> special_event s ev \<and> 0 < special_uses (player s)
                   \<and> alive_enemies s \<noteq> [] then 1 else 0)"
proof (cases "outcome s = None")
  case False
  with he show ?thesis by (simp add: handle_event_decided)
next
  case und: True
  show ?thesis
  proof (cases "special_event s ev")
    case sp: True
    show ?thesis
    proof (cases "0 < special_uses (player s)")
      case True
      with he und sp have "player_attack s True g = Inr (s', g')"
        by (simp add: handle_special_event special_or_message_def)
      from player_attack_special_uses[OF this] und sp True show ?thesis by simp
    next
      case False
      with he und sp have "s' = s \<lparr> message := ''No special uses left!'' \<rparr>"
        by (simp add: handle_special_event special_or_message_def)
      with False show ?thesis by simp
    qed
  next
    case nsp: False
    show ?thesis
    proof (cases "attack_event s ev")
      case True
      with he und have "player_attack s False g = Inr (s', g')"
        by (simp add: handle_attack_event)
      from player_attack_special_uses[OF this] nsp show ?thesis by simp
    next
      case False
      from handle_event_other[OF False nsp, of g] he nsp show ?thesis by auto
    qed
  qed
qed

text \<open>
  C9. Across any handled event the player's \<open>special_uses\<close> does not increase and,
  if it was not negative, does not become negative. It decreases, by exactly one,
  exactly when a special attack is carried out: the battle is undecided, the
  event is a special attack, a use is left and an opponent is alive. (In an
  undecided session an opponent is alive whenever one was alive at construction;
  with none alive the attack only declares the battle won.)
\<close>

theorem special_uses_monotone:
  assumes "handle_event s ev g = Inr (s', g')"
  shows "special_uses (player s') \<le> special_uses (player s)
       \<and> (0 \<le> special_uses (player s) \<longrightarrow> 0 \<le> special_uses (player s'))
       \<and> special_uses (player s') =
           (if outcome s = None \<and> special_event s ev \<and> 0 < special_uses (player s)
               \<and> alive_enemies s \<noteq> []
            then special_uses (player s) - 1 else special_uses (player s))"
  using handle_event_special_uses[OF assms] by auto

section \<open>The area special attack\<close>

lemma py_get_nat: "py_get xs (int k) = Inr y \<Longrightarrow> k < length xs \<and> y = xs ! k"
  by (auto simp: py_get_def split: if_splits)

lemma special_loop_spec:
  assumes "special_loop (enumerate k ais) s t g = Inr (s', t', g')"
    and "distinct ais" and "\<forall>a \<in> set ais. a < length (enemies s)"
  shows "\<exists>ds. length ds = length ais \<and> t' = t + sum_list ds
           \<and> (\<forall>j < length ais.
                 roll_special_damage (player s) ((rng_next ^^ j) g)
                   = Inr (ds ! j, (rng_next ^^ Suc j) g))
           \<and> (\<forall>j < length ais.
                 enemies s' ! (ais ! j) = take_damage (enemies s ! (ais ! j)) (ds ! j))
           \<and> (\<forall>i. i \<notin> set ais \<longrightarrow> enemies s' ! i = enemies s ! i)
           \<and> popups s' = popups s @
                map (\<lambda>j. hit_popup (ds ! j) (enemy_positions s ! (k + j))) [0 ..< length ais]"
  using assms
proof (induction ais arbitrary: k s t g)
  case Nil
  then show ?case by simp
next
  case (Cons a ais)
  from Cons.prems(1) obtain d g1 where
    roll: "roll_special_damage (player s) g = Inr (d, g1)"
    by (cases "roll_special_damage (player s) g") auto
  from roll_special_damage_Inr[OF roll] have g1: "g1 = rng_next g" by blast
  let ?s1 = "s \<lparr> enemies := (enemies s)[a := take_damage (enemies s ! a) d] \<rparr>"
  from Cons.prems(1) roll obtain pp where
    pg: "py_get (enemy_positions s) (int k) = Inr pp"
    by (cases "py_get (enemy_positions s) (int k)") (auto simp: Let_def)
  from py_get_nat[OF pg] have pp: "pp = enemy_positions s ! k" by simp
  let ?s2 = "add_popup ?s1 (''-'' @ str_int d) (fst pp + 60, snd pp - 10) (255, 180, 120)"
  from Cons.prems(1) roll pg have
    rest: "special_loop (enumerate (Suc k) ais) ?s2 (t + d) g1 = Inr (s', t', g')"
    by (simp add: Let_def)
  from Cons.prems(2) have dist: "distinct ais" and a_notin: "a \<notin> set ais" by simp_all
  from Cons.prems(3) have a_lt: "a < length (enemies s)"
    and lt: "\<forall>b \<in> set ais. b < length (enemies ?s2)"
    by (simp_all add: add_popup_def)
  from Cons.IH[OF rest dist lt] obtain ds where
    len: "length ds = length ais" and tot: "t' = t + d + sum_list ds"
    and rolls: "\<forall>j < length ais. roll_special_damage (player ?s2) ((rng_next ^^ j) g1)
                   = Inr (ds ! j, (rng_next ^^ Suc j) g1)"
    and ens: "\<forall>j < length ais. enemies s' ! (ais ! j) = take_damage (enemies ?s2 ! (ais ! j)) (ds ! j)"
    and others: "\<forall>i. i \<notin> set ais \<longrightarrow> enemies s' ! i = enemies ?s2 ! i"
    and pops: "popups s' = popups ?s2 @
                map (\<lambda>j. hit_popup (ds ! j) (enemy_positions ?s2 ! (Suc k + j))) [0 ..< length ais]"
    by blast
  have pl: "player ?s2 = player s" and ep: "enemy_positions ?s2 = enemy_positions s"
    and en2: "enemies ?s2 = (enemies s)[a := take_damage (enemies s ! a) d]"
    and pop2: "popups ?s2 = popups s @ [hit_popup d (enemy_positions s ! k)]"
    by (simp_all add: add_popup_def hit_popup_def hit_color_def pp)
  let ?ds = "d # ds"
  have 1: "length ?ds = length (a # ais)" using len by simp
  have 2: "t' = t + sum_list ?ds" using tot by simp
  have 3: "\<forall>j < length (a # ais).
             roll_special_damage (player s) ((rng_next ^^ j) g)
               = Inr (?ds ! j, (rng_next ^^ Suc j) g)"
  proof (intro allI impI)
    fix j assume j: "j < length (a # ais)"
    show "roll_special_damage (player s) ((rng_next ^^ j) g)
               = Inr (?ds ! j, (rng_next ^^ Suc j) g)"
    proof (cases j)
      case 0
      with roll g1 show ?thesis by simp
    next
      case (Suc j')
      with j have "j' < length ais" by simp
      with rolls have "roll_special_damage (player ?s2) ((rng_next ^^ j') g1)
                   = Inr (ds ! j', (rng_next ^^ Suc j') g1)" by blast
      with Suc pl g1 show ?thesis by (simp add: funpow_swap1)
    qed
  qed
  have 4: "\<forall>j < length (a # ais).
             enemies s' ! ((a # ais) ! j) = take_damage (enemies s ! ((a # ais) ! j)) (?ds ! j)"
  proof (intro allI impI)
    fix j assume j: "j < length (a # ais)"
    show "enemies s' ! ((a # ais) ! j) = take_damage (enemies s ! ((a # ais) ! j)) (?ds ! j)"
    proof (cases j)
      case 0
      from others a_notin have "enemies s' ! a = enemies ?s2 ! a" by blast
      with en2 a_lt 0 show ?thesis by simp
    next
      case (Suc j')
      with j have j': "j' < length ais" by simp
      then have "ais ! j' \<in> set ais" by simp
      with a_notin have "ais ! j' \<noteq> a" by auto
      with en2 have "enemies ?s2 ! (ais ! j') = enemies s ! (ais ! j')" by simp
      with ens j' Suc show ?thesis by simp
    qed
  qed
  have 5: "\<forall>i. i \<notin> set (a # ais) \<longrightarrow> enemies s' ! i = enemies s ! i"
    using others en2 by auto
  have 6: "popups s' = popups s @
                map (\<lambda>j. hit_popup (?ds ! j) (enemy_positions s ! (k + j))) [0 ..< length (a # ais)]"
    using pops pop2 ep by (simp add: map_upt_Suc del: upt_Suc)
  from 1 2 3 4 5 6 show ?case by blast
qed


lemma roll_special_damage_uses:
  "roll_special_damage (c \<lparr> special_uses := n \<rparr>) g = roll_special_damage c g"
  by (simp add: roll_special_damage_def roll_damage_def)

text \<open>
  C3. A special attack issued in an undecided battle with a use left and more than
  one opponent alive consumes exactly one special use. Its targets are the
  opponents alive before the action, \<open>alive_indices s\<close>; the opponents defeated
  before it are untouched. Target \<open>j\<close> takes the damage \<open>ds ! j\<close> of its own
  special roll, the \<open>j\<close>-th draw of the random source. Exactly one hit popup
  is added per target, in order, followed by nothing but the popup of the
  counterattack, if any. The total the exchange message reports is the sum of the
  damages; when the action ends the battle the message is the verdict instead.
\<close>

theorem area_special_attack:
  assumes und: "outcome s = None" and sp: "special_event s ev"
    and su: "0 < special_uses (player s)" and many: "1 < length (alive_enemies s)"
    and he: "handle_event s ev g = Inr (s', g')"
  shows "special_uses (player s') = special_uses (player s) - 1
       \<and> length (enemies s') = length (enemies s)
       \<and> (\<forall>i < length (enemies s). is_defeated (enemies s ! i) \<longrightarrow> enemies s' ! i = enemies s ! i)
       \<and> (\<exists>ds. length ds = length (alive_indices s)
            \<and> (\<forall>j < length ds.
                  roll_special_damage (player s) ((rng_next ^^ j) g)
                    = Inr (ds ! j, (rng_next ^^ Suc j) g))
            \<and> (\<forall>j < length ds.
                  enemies s' ! (alive_indices s ! j)
                    = take_damage (enemies s ! (alive_indices s ! j)) (ds ! j))
            \<and> (\<exists>rest. popups s' = popups s
                    @ map (\<lambda>j. hit_popup (ds ! j) (enemy_positions s ! j)) [0 ..< length ds] @ rest
                  \<and> (\<forall>p \<in> set rest. pcolor p = counter_color))
            \<and> message s' =
                (if alive_enemies s' = [] then ''Enemies defeated!''
                 else if current_health (player s') \<le> 0 then ''You have been defeated!''
                 else ''Special hit all enemies for '' @ str_int (sum_list ds)
                   @ '' total. Enemy hit back for ''
                   @ str_int (current_health (player s) - current_health (player s')) @ ''.''))"
proof -
  let ?s1 = "s \<lparr> player := (player s) \<lparr> special_uses := special_uses (player s) - 1 \<rparr> \<rparr>"
  let ?ais = "alive_indices s"
  from many have len: "1 < length ?ais" by (simp add: length_alive_indices)
  from he und sp su have pa: "player_attack s True g = Inr (s', g')"
    by (simp add: handle_special_event special_or_message_def)
  then have eq: "(case special_loop (enumerate 0 ?ais) ?s1 0 g of
             Inl err \<Rightarrow> Inl err
           | Inr (mid, total_damage, g2) \<Rightarrow>
               if alive_enemies mid = []
               then Inr (mid \<lparr> outcome := Some WIN, message := ''Enemies defeated!'' \<rparr>, g2)
               else enemy_counter (reclamp mid) g2
                      (\<lambda>enemy_damage. ''Special hit all enemies for '' @ str_int total_damage
                         @ '' total. Enemy hit back for '' @ str_int enemy_damage @ ''.'')) = Inr (s', g')"
    unfolding player_attack_aoe_eq[OF su len] .
  then obtain mid total g2 where
    loop: "special_loop (enumerate 0 ?ais) ?s1 0 g = Inr (mid, total, g2)"
    by (cases "special_loop (enumerate 0 ?ais) ?s1 0 g") auto
  have lt: "\<forall>a \<in> set ?ais. a < length (enemies ?s1)" by (simp add: alive_indices_mem)
  from special_loop_spec[OF loop distinct_alive_indices lt] obtain ds where
    dlen: "length ds = length ?ais" and tot: "total = sum_list ds"
    and rolls: "\<forall>j < length ?ais. roll_special_damage (player s) ((rng_next ^^ j) g)
                   = Inr (ds ! j, (rng_next ^^ Suc j) g)"
    and ens: "\<forall>j < length ?ais. enemies mid ! (?ais ! j) = take_damage (enemies s ! (?ais ! j)) (ds ! j)"
    and others: "\<forall>i. i \<notin> set ?ais \<longrightarrow> enemies mid ! i = enemies s ! i"
    and pops: "popups mid = popups s @
                map (\<lambda>j. hit_popup (ds ! j) (enemy_positions s ! j)) [0 ..< length ?ais]"
    by (auto simp: roll_special_damage_uses)
  from special_loop_frame[OF loop] have
    fr: "player mid = player ?s1" "outcome mid = None" "lay mid = lay s"
      "length (enemies mid) = length (enemies s)"
    using und by simp_all
  have dead: "\<forall>i < length (enemies s). is_defeated (enemies s ! i) \<longrightarrow> enemies mid ! i = enemies s ! i"
    using others by (simp add: alive_indices_mem)
  show ?thesis
  proof (cases "alive_enemies mid = []")
    case True
    with eq loop have s': "s' = mid \<lparr> outcome := Some WIN, message := ''Enemies defeated!'' \<rparr>"
      by simp
    with True have "alive_enemies s' = []" by simp
    with s' fr dead dlen rolls ens pops show ?thesis
      by (intro conjI exI[of _ ds] exI[of _ "[]"]) simp_all
  next
    case False
    with eq loop have ec: "enemy_counter (reclamp mid) g2
                      (\<lambda>enemy_damage. ''Special hit all enemies for '' @ str_int total
                         @ '' total. Enemy hit back for '' @ str_int enemy_damage @ ''.'') = Inr (s', g')"
      by simp
    from enemy_counter_Inr[OF ec] obtain d where
      s': "s' = (reclamp mid) \<lparr> player := take_damage (player (reclamp mid)) d,
                  outcome := (if current_health (player (reclamp mid)) - d \<le> 0
                              then Some LOSE else outcome (reclamp mid)),
                  message := (if current_health (player (reclamp mid)) - d \<le> 0
                              then ''You have been defeated!''
                              else ''Special hit all enemies for '' @ str_int total
                                @ '' total. Enemy hit back for '' @ str_int d @ ''.''),
                  popups := popups (reclamp mid) @ [\<lparr> ptext = ''-'' @ str_int d,
                      ppos = (fst (left_pos (lay (reclamp mid))) + 60,
                              snd (left_pos (lay (reclamp mid))) - 10),
                      pcolor = counter_color \<rparr>] \<rparr>"
      by blast
    have en: "enemies s' = enemies mid" by (simp add: s' reclamp_fields)
    then have al: "alive_enemies s' \<noteq> []" using False by (simp add: alive_enemies_def)
    have hp: "current_health (player s') = current_health (player s) - d"
      by (simp add: s' reclamp_fields fr take_damage_def)
    have uses: "special_uses (player s') = special_uses (player s) - 1"
      by (simp add: s' reclamp_fields fr take_damage_def)
    have msg: "message s' =
                (if current_health (player s') \<le> 0 then ''You have been defeated!''
                 else ''Special hit all enemies for '' @ str_int (sum_list ds)
                   @ '' total. Enemy hit back for ''
                   @ str_int (current_health (player s) - current_health (player s')) @ ''.'')"
      by (simp add: s' reclamp_fields fr take_damage_def tot)
    have pp: "popups s' = popups s
                @ map (\<lambda>j. hit_popup (ds ! j) (enemy_positions s ! j)) [0 ..< length ds]
                @ [\<lparr> ptext = ''-'' @ str_int d,
                      ppos = (fst (left_pos (lay s)) + 60, snd (left_pos (lay s)) - 10),
                      pcolor = counter_color \<rparr>]"
      by (simp add: s' reclamp_fields fr pops dlen)
    from uses en fr dead dlen rolls ens pp msg al show ?thesis
      by (intro conjI exI[of _ ds]
            exI[of _ "[\<lparr> ptext = ''-'' @ str_int d,
                      ppos = (fst (left_pos (lay s)) + 60, snd (left_pos (lay s)) - 10),
                      pcolor = counter_color \<rparr>]"]) simp_all
  qed
qed

section \<open>A session with three opponents\<close>

lemma special_of_base_0: "special_of_base 0 = Inr 6"
  using special_of_base_formula[of 0] by simp

lemma scenario_E_step1:
  "handle_event scenario_E (KEYDOWN K_LEFT) zero_rng = Inr (scenario_E_left, zero_rng)"
  by (simp add: scenario_E_def scenario_E_left_def eval_defs)


lemma scenario_E_step2:
  "handle_event scenario_E_left (KEYDOWN K_s) zero_rng = Inr (scenario_E_special, zero_rng)"
  by (simp add: scenario_E_def scenario_E_left_def scenario_E_special_def eval_defs
      special_of_base_0 hit_popup_def enumerate_eq_zip)

section \<open>The target index\<close>

lemma handle_event_target:
  assumes inv: "target_in_range s" and he: "handle_event s ev g = Inr (s', g')"
  shows "target_in_range s'"
proof (cases "outcome s = None")
  case False
  with he inv show ?thesis by (simp add: handle_event_decided)
next
  case und: True
  show ?thesis
  proof (cases "special_event s ev")
    case sp: True
    show ?thesis
    proof (cases "0 < special_uses (player s)")
      case True
      with he und sp have "player_attack s True g = Inr (s', g')"
        by (simp add: handle_special_event special_or_message_def)
      from player_attack_target[OF this] True show ?thesis by simp
    next
      case False
      with he und sp have "s' = s \<lparr> message := ''No special uses left!'' \<rparr>"
        by (simp add: handle_special_event special_or_message_def)
      with inv show ?thesis by (simp add: target_in_range_def)
    qed
  next
    case nsp: False
    show ?thesis
    proof (cases "attack_event s ev")
      case True
      with he und have "player_attack s False g = Inr (s', g')"
        by (simp add: handle_attack_event)
      from player_attack_target[OF this] show ?thesis by simp
    next
      case False
      from handle_event_cases[of s ev g] und nsp False he
      consider "s' = s"
        | "alive_enemies s \<noteq> []"
          "s' = s \<lparr> target_index := (target_index s - 1) mod int (length (alive_enemies s)) \<rparr>"
        | "alive_enemies s \<noteq> []"
          "s' = s \<lparr> target_index := (target_index s + 1) mod int (length (alive_enemies s)) \<rparr>"
        | i where "i < length (alive_enemies s)" "s' = s \<lparr> target_index := int i \<rparr>"
        by auto
      then show ?thesis
      proof cases
        case 1
        with inv show ?thesis by simp
      next
        case 2
        then have "0 < int (length (alive_enemies s))" by simp
        with 2 show ?thesis
          by (simp add: target_in_range_def pos_mod_bound zle_diff1_eq)
      next
        case 3
        then have "0 < int (length (alive_enemies s))" by simp
        with 3 show ?thesis
          by (simp add: target_in_range_def pos_mod_bound zle_diff1_eq)
      next
        case 4
        then show ?thesis by (auto simp: target_in_range_def)
      qed
    qed
  qed
qed

lemma Battle_init_target:
  assumes "Battle_init p enemy l = Inr s"
  shows "target_in_range s"
proof -
  from assms have "target_index s = 0"
    by (auto simp: Battle_init_def recompute_enemy_positions_def Let_def)
  then show ?thesis
    by (cases "alive_enemies s") (simp_all add: target_in_range_def)
qed

lemma session_target_in_range: "session_state s \<Longrightarrow> target_in_range s"
proof (induction rule: session_state.induct)
  case (constructed p enemy l s)
  then show ?case by (rule Battle_init_target)
next
  case (handled s ev g s' g')
  then show ?case by (blast intro: handle_event_target)
qed

text \<open>
  C4. In every state of a session, that is after construction and after every
  event handled (attack, special attack, target cycling, target selection by
  click, or any other event), \<open>target_index\<close> lies in \<open>[0, aliveCount - 1]\<close>
  whenever an opponent is alive.
\<close>

theorem target_index_valid:
  assumes "session_state s" and "alive_enemies s \<noteq> []"
  shows "0 \<le> target_index s \<and> target_index s \<le> int (length (alive_enemies s)) - 1"
  using session_target_in_range[OF assms(1)] assms(2) by (simp add: target_in_range_def)

lemma scenario_E_session: "session_state scenario_E_special"
proof -
  have "Battle_init (mk_creature 100 0 0 1)
          (Many [mk_creature 5 3 3 0, mk_creature 50 3 3 0, mk_creature 5 3 3 0]) std_layout
        = Inr scenario_E"
    by (simp add: Battle_init_def scenario_E_def session_of_def Let_def)
  then have "session_state scenario_E" by (rule session_state.constructed)
  then have "session_state scenario_E_left"
    using scenario_E_step1 by (rule session_state.handled)
  then show ?thesis using scenario_E_step2 by (rule session_state.handled)
qed

lemma scenario_E_alive:
  "alive_enemies scenario_E_special = [take_damage (mk_creature 50 3 3 0) 6]"
  by (simp add: scenario_E_special_def alive_enemies_def is_defeated_def take_damage_def
      mk_creature_def Creature_init_def)

theorem target_index_valid_witness:
  "session_state scenario_E_special \<and> alive_enemies scenario_E_special \<noteq> []
   \<and> target_index scenario_E_left = 2 \<and> length (alive_enemies scenario_E_special) = 1
   \<and> 0 \<le> target_index scenario_E_special
   \<and> target_index scenario_E_special \<le> int (length (alive_enemies scenario_E_special)) - 1"
proof -
  have ne: "alive_enemies scenario_E_special \<noteq> []" by (simp add: scenario_E_alive)
  from target_index_valid[OF scenario_E_session ne] scenario_E_session ne show ?thesis
    by (simp add: scenario_E_alive scenario_E_left_def)
qed


section \<open>The attacks of the concrete sessions\<close>

theorem finishing_blow_no_counter_witness:
  "outcome scenario_A = None \<and> attack_action scenario_A (KEYDOWN K_RETURN)
   \<and> handle_event scenario_A (KEYDOWN K_RETURN) zero_rng = Inr (scenario_A_won, zero_rng)
   \<and> alive_enemies scenario_A_won = []
   \<and> outcome scenario_A_won = Some WIN
   \<and> current_health (player scenario_A_won) = current_health (player scenario_A)
   \<and> (\<exists>new. popups scenario_A_won = popups scenario_A @ new
          \<and> (\<forall>p \<in> set new. pcolor p = hit_color \<and> pcolor p \<noteq> counter_color))"
proof -
  have h1: "outcome scenario_A = None"
    by (simp add: scenario_A_def session_of_def recompute_enemy_positions_def Let_def)
  have h2: "attack_action scenario_A (KEYDOWN K_RETURN)"
    by (simp add: attack_action_def attack_event_def)
  have h4: "alive_enemies scenario_A_won = []"
    by (simp add: scenario_A_won_def alive_enemies_def is_defeated_def take_damage_def
        mk_creature_def Creature_init_def)
  from finishing_blow_no_counter[OF h1 h2 scenario_A_step h4] h1 h2 h4 scenario_A_step
  show ?thesis by simp
qed

theorem counterattack_resolved_witness:
  "outcome scenario_D = None \<and> attack_action scenario_D (KEYDOWN K_SPACE)
   \<and> handle_event scenario_D (KEYDOWN K_SPACE) zero_rng = Inr (scenario_D_hit, zero_rng)
   \<and> alive_enemies scenario_D_hit \<noteq> []
   \<and> current_health (player scenario_D) = 100 \<and> current_health (player scenario_D_hit) = 97
   \<and> outcome scenario_D_hit = None
   \<and> (\<exists>c d hits. c \<in> set (alive_enemies scenario_D_hit)
         \<and> damage_min c \<le> d \<and> d \<le> damage_max c
         \<and> current_health (player scenario_D_hit) = current_health (player scenario_D) - d
         \<and> popups scenario_D_hit = popups scenario_D @ hits @
              [\<lparr> ptext = ''-'' @ str_int d,
                 ppos = (fst (left_pos (lay scenario_D)) + 60, snd (left_pos (lay scenario_D)) - 10),
                 pcolor = counter_color \<rparr>]
         \<and> (\<forall>p \<in> set hits. pcolor p = hit_color \<and> pcolor p \<noteq> counter_color)
         \<and> (outcome scenario_D_hit = Some LOSE \<longleftrightarrow> current_health (player scenario_D_hit) \<le> 0)
         \<and> (outcome scenario_D_hit = None \<longleftrightarrow> \<not> current_health (player scenario_D_hit) \<le> 0))"
proof -
  have h1: "outcome scenario_D = None"
    by (simp add: scenario_D_def session_of_def recompute_enemy_positions_def Let_def)
  have h2: "attack_action scenario_D (KEYDOWN K_SPACE)"
    by (simp add: attack_action_def attack_event_def)
  have h4: "alive_enemies scenario_D_hit \<noteq> []"
    by (simp add: scenario_D_hit_def alive_enemies_def is_defeated_def take_damage_def
        mk_creature_def Creature_init_def)
  have h5: "current_health (player scenario_D) = 100"
    "current_health (player scenario_D_hit) = 97" "outcome scenario_D_hit = None"
    by (simp_all add: scenario_D_hit_def scenario_D_def session_of_def
        recompute_enemy_positions_def Let_def take_damage_def mk_creature_def Creature_init_def)
  from counterattack_resolved[OF h1 h2 scenario_D_step h4] h1 h2 h4 h5 scenario_D_step
  show ?thesis by simp
qed

theorem special_uses_monotone_witness:
  "handle_event scenario_E_left (KEYDOWN K_s) zero_rng = Inr (scenario_E_special, zero_rng)
   \<and> special_uses (player scenario_E_left) = 1
   \<and> special_uses (player scenario_E_special) = 0
   \<and> special_uses (player scenario_E_special) \<le> special_uses (player scenario_E_left)
   \<and> 0 \<le> special_uses (player scenario_E_left)
   \<and> 0 \<le> special_uses (player scenario_E_special)"
proof -
  have a: "special_uses (player scenario_E_left) = 1"
    by (simp add: scenario_E_left_def scenario_E_def session_of_def
        recompute_enemy_positions_def Let_def mk_creature_def)
  have b: "special_uses (player scenario_E_special) = 0"
    by (simp add: scenario_E_special_def take_damage_def)
  from special_uses_monotone[OF scenario_E_step2] a b scenario_E_step2 show ?thesis
    by simp
qed

section \<open>The area special attack on the three opponents\<close>

theorem area_special_attack_witness:
  "outcome scenario_E_left = None \<and> special_event scenario_E_left (KEYDOWN K_s)
   \<and> 0 < special_uses (player scenario_E_left) \<and> 1 < length (alive_enemies scenario_E_left)
   \<and> handle_event scenario_E_left (KEYDOWN K_s) zero_rng = Inr (scenario_E_special, zero_rng)
   \<and> alive_indices scenario_E_left = [0, 1, 2]
   \<and> special_uses (player scenario_E_special) = special_uses (player scenario_E_left) - 1
   \<and> length (enemies scenario_E_special) = length (enemies scenario_E_left)
   \<and> (\<exists>ds. length ds = length (alive_indices scenario_E_left)
        \<and> (\<forall>j < length ds.
              roll_special_damage (player scenario_E_left) ((rng_next ^^ j) zero_rng)
                = Inr (ds ! j, (rng_next ^^ Suc j) zero_rng))
        \<and> (\<forall>j < length ds.
              enemies scenario_E_special ! (alive_indices scenario_E_left ! j)
                = take_damage (enemies scenario_E_left ! (alive_indices scenario_E_left ! j)) (ds ! j))
        \<and> (\<exists>rest. popups scenario_E_special = popups scenario_E_left
                @ map (\<lambda>j. hit_popup (ds ! j) (enemy_positions scenario_E_left ! j)) [0 ..< length ds]
                @ rest
              \<and> (\<forall>p \<in> set rest. pcolor p = counter_color))
        \<and> message scenario_E_special =
            (if alive_enemies scenario_E_special = [] then ''Enemies defeated!''
             else if current_health (player scenario_E_special) \<le> 0 then ''You have been defeated!''
             else ''Special hit all enemies for '' @ str_int (sum_list ds)
               @ '' total. Enemy hit back for ''
               @ str_int (current_health (player scenario_E_left)
                          - current_health (player scenario_E_special)) @ ''.''))
   \<and> message scenario_E_special = ''Special hit all enemies for 18 total. Enemy hit back for 3.''"
proof -
  have h1: "outcome scenario_E_left = None"
    by (simp add: scenario_E_left_def scenario_E_def session_of_def
        recompute_enemy_positions_def Let_def)
  have h2: "special_event scenario_E_left (KEYDOWN K_s)" by (simp add: special_event_def)
  have h3: "0 < special_uses (player scenario_E_left)"
    by (simp add: scenario_E_left_def scenario_E_def session_of_def
        recompute_enemy_positions_def Let_def mk_creature_def)
  have h4: "1 < length (alive_enemies scenario_E_left)"
    by (simp add: scenario_E_left_def scenario_E_def session_of_def
        recompute_enemy_positions_def Let_def mk_creature_def alive_enemies_def
        is_defeated_def Creature_init_def)
  have a: "alive_indices scenario_E_left = [0, 1, 2]"
    by (simp add: scenario_E_left_def scenario_E_def session_of_def
        recompute_enemy_positions_def Let_def mk_creature_def alive_indices_def
        is_defeated_def Creature_init_def upt_rec)
  have m: "message scenario_E_special
             = ''Special hit all enemies for 18 total. Enemy hit back for 3.''"
    by (simp add: scenario_E_special_def)
  from area_special_attack[OF h1 h2 h3 h4 scenario_E_step2] h1 h2 h3 h4 a m scenario_E_step2
  show ?thesis by simp
qed

section \<open>Construction without opponents\<close>

lemma Battle_init_empty: "Battle_init p (Many []) l = Inr (silent_session p l)"
  by (simp add: Battle_init_def silent_session_def recompute_enemy_positions_def
      build_intro_message_def alive_enemies_def Let_def)

text \<open>
  C7. Construction with an empty opponent sequence does not fail. It yields an
  undecided session without opponents, with \<open>target_index = 0\<close> and the intro
  message "An eerie silence fills the battlefield..."; the empty sequence is
  tolerated during play, where the first basic attack finds no opponent alive and
  sets the outcome to WIN.
\<close>

theorem empty_opponents_tolerated:
  "Battle_init p (Many []) l = Inr (silent_session p l)
   \<and> handle_event (silent_session p l) (KEYDOWN K_RETURN) g
       = Inr ((silent_session p l) \<lparr> outcome := Some WIN, message := ''Enemy defeated!'' \<rparr>, g)"
proof -
  have "alive_indices (silent_session p l) = []"
    by (simp add: alive_indices_def silent_session_def)
  then have "player_attack (silent_session p l) False g
       = Inr ((silent_session p l) \<lparr> outcome := Some WIN, message := ''Enemy defeated!'' \<rparr>, g)"
    by (simp add: player_attack_none_alive)
  moreover have "handle_event (silent_session p l) (KEYDOWN K_RETURN) g
       = player_attack (silent_session p l) False g"
    by (simp add: handle_attack_event attack_event_def silent_session_def)
  ultimately show ?thesis by (simp add: Battle_init_empty)
qed

text \<open>
  The constructor returns a session for the player of scenario A and no opponent
  on the default layout: construction did not fail.
\<close>

theorem empty_opponents_counterexample:
  "\<not> isl (Battle_init (mk_creature 100 10 10 1) (Many []) std_layout)
   \<and> Battle_init (mk_creature 100 10 10 1) (Many []) std_layout
       = Inr \<lparr> player = mk_creature 100 10 10 1, enemies = [], outcome = None, target_index = 0,
               message = ''An eerie silence fills the battlefield...'', popups = [],
               lay = std_layout, enemy_positions = [(724, 176)] \<rparr>"
  by (simp add: Battle_init_empty silent_session_def std_layout_def)

section \<open>Further facts about sessions\<close>

text \<open>
  An operation that changes the state of an undecided battle (an attack carried
  out, target cycling, target selection by click) leaves \<open>target_index\<close> in
  range whatever it was before.
\<close>

lemma mutating_event_target:
  assumes und: "outcome s = None"
    and ev: "attack_action s ev \<or> cycle_event ev \<or> click_target_event s ev"
    and he: "handle_event s ev g = Inr (s', g')"
  shows "target_in_range s'"
  using ev
proof (elim disjE)
  assume "attack_action s ev"
  from handle_attack_action[OF und this, of g] he obtain sp where
    "\<not> (sp \<and> special_uses (player s) \<le> 0)" "player_attack s sp g = Inr (s', g')"
    by metis
  then show ?thesis by (rule player_attack_target[rotated])
next
  assume "cycle_event ev"
  then obtain k where k: "ev = KEYDOWN k" "k = K_LEFT \<or> k = K_a \<or> k = K_RIGHT \<or> k = K_d"
    by (auto simp: cycle_event_def split: event.splits)
  show ?thesis
  proof (cases "alive_enemies s = []")
    case True
    with he und k show ?thesis by (auto simp: handle_event_def Let_def target_in_range_def)
  next
    case False
    then have "0 < int (length (alive_enemies s))" by simp
    with he und k False show ?thesis
      by (auto simp: handle_event_def Let_def target_in_range_def pos_mod_bound zle_diff1_eq)
  qed
next
  assume "click_target_event s ev"
  then obtain p i where "ev = MOUSEBUTTONDOWN 1 p" "enemy_at_pos s p = Some i"
    by (auto simp: click_target_event_def split: event.splits)
  with he und enemy_at_pos_Some[of s p i] show ?thesis
    by (auto simp: handle_event_def Let_def target_in_range_def)
qed

text \<open>
  While a session is undecided an opponent is alive, provided one was alive when
  the session was constructed: the property is preserved by every handled event.
\<close>

lemma undecided_alive_preserved:
  assumes inv: "outcome s = None \<longrightarrow> alive_enemies s \<noteq> []"
    and he: "handle_event s ev g = Inr (s', g')"
    and und: "outcome s' = None"
  shows "alive_enemies s' \<noteq> []"
proof (cases "outcome s = None")
  case False
  with he und show ?thesis by (simp add: handle_event_decided)
next
  case True
  with inv have ne: "alive_enemies s \<noteq> []" by simp
  show ?thesis
  proof (cases "attack_action s ev")
    case True
    from handle_attack_action[OF \<open>outcome s = None\<close> this, of g] he obtain sp where
      ok: "\<not> (sp \<and> special_uses (player s) \<le> 0)" and pa: "player_attack s sp g = Inr (s', g')"
      by metis
    from player_attack_phases[OF pa ok] und ne show ?thesis
      by (auto dest: enemy_counter_fields(1) simp: alive_enemies_def)
  next
    case False
    have "enemies s' = enemies s"
    proof (cases "special_event s ev")
      case True
      with False have "\<not> 0 < special_uses (player s)" by (simp add: attack_action_def)
      with he True \<open>outcome s = None\<close> show ?thesis
        by (auto simp: handle_special_event special_or_message_def)
    next
      case nsp: False
      from False have "\<not> attack_event s ev" by (simp add: attack_action_def)
      from handle_event_other[OF this nsp, of g] he show ?thesis by auto
    qed
    with ne show ?thesis by (simp add: alive_enemies_def)
  qed
qed

section \<open>Handled events do not raise\<close>

text \<open>
  In a well-formed session every event is handled without an exception and leads
  to a well-formed session; the constructor builds a well-formed session from
  creatures with proper damage ranges. So the hypotheses
  \<open>handle_event s ev g = Inr (s', g')\<close> of the theorems above hold for every event
  of such a session.
\<close>

lemma roll_damage_returns:
  "damage_min c \<le> damage_max c \<Longrightarrow> \<exists>r. roll_damage c g = Inr (r, rng_next g)"
  by (simp add: roll_damage_def randint_def)

lemma roll_special_damage_returns:
  assumes "0 \<le> damage_min c" "damage_min c \<le> damage_max c" "damage_max c < 2 ^ 45"
  shows "\<exists>r. damage_min c \<le> r \<and> r \<le> damage_max c
           \<and> roll_damage c g = Inr (r, rng_next g)
           \<and> roll_special_damage c g = Inr (r * 135 div 100 + 6, rng_next g)"
proof -
  from roll_damage_returns[OF assms(2)] obtain r where
    roll: "roll_damage c g = Inr (r, rng_next g)" by blast
  from roll_damage_Inr[OF roll] have rng: "damage_min c \<le> r" "r \<le> damage_max c"
    by simp_all
  with assms have "special_of_base r = Inr (r * 135 div 100 + 6)"
    by (intro special_of_base_formula) simp_all
  with roll have "roll_special_damage c g = Inr (r * 135 div 100 + 6, rng_next g)"
    by (simp add: roll_special_damage_def)
  with roll rng show ?thesis by blast
qed

lemma list_all_hit:
  assumes "list_all (\<lambda>c. damage_min c \<le> damage_max c) xs"
  shows "list_all (\<lambda>c. damage_min c \<le> damage_max c) (xs[i := take_damage (xs ! i) d])"
proof (cases "i < length xs")
  case True
  with assms have "damage_min (xs ! i) \<le> damage_max (xs ! i)" by (simp add: list_all_length)
  with assms True show ?thesis
    by (auto simp: list_all_length nth_list_update take_damage_def)
next
  case False
  then have "xs[i := take_damage (xs ! i) d] = xs" by (simp add: list_update_beyond)
  with assms show ?thesis by simp
qed

lemma stats_ok_update [simp]:
  "stats_ok (s \<lparr> outcome := a \<rparr>) = stats_ok s"
  "stats_ok (s \<lparr> message := b \<rparr>) = stats_ok s"
  "stats_ok (s \<lparr> popups := d \<rparr>) = stats_ok s"
  "stats_ok (s \<lparr> target_index := e \<rparr>) = stats_ok s"
  "stats_ok (s \<lparr> enemy_positions := f \<rparr>) = stats_ok s"
  "stats_ok (s \<lparr> player := take_damage (player s) n \<rparr>) = stats_ok s"
  "stats_ok (s \<lparr> player := (player s) \<lparr> special_uses := u \<rparr> \<rparr>) = stats_ok s"
  by (simp_all add: stats_ok_def take_damage_def)

lemma stats_ok_hit:
  "stats_ok s \<Longrightarrow> stats_ok (s \<lparr> enemies := (enemies s)[i := take_damage (enemies s ! i) d] \<rparr>)"
  by (simp add: stats_ok_def list_all_hit)

lemma special_loop_stats:
  "special_loop ps s t g = Inr (s', t', g') \<Longrightarrow> stats_ok s \<Longrightarrow> stats_ok s'"
proof (induction ps arbitrary: s t g)
  case Nil
  then show ?case by simp
next
  case (Cons a ps)
  obtain idx ei where a: "a = (idx, ei)" by (cases a)
  from Cons.prems(1) a obtain d g1 pp where
    rest: "special_loop ps
             (add_popup (s \<lparr> enemies := (enemies s)[ei := take_damage (enemies s ! ei) d] \<rparr>)
                (''-'' @ str_int d) (fst pp + 60, snd pp - 10) (255, 180, 120))
             (t + d) g1 = Inr (s', t', g')"
    by (auto simp: Let_def split: sum.splits prod.splits)
  show ?case
    by (rule Cons.IH[OF rest]) (simp add: add_popup_def stats_ok_hit[OF Cons.prems(2)])
qed

lemma special_loop_returns:
  assumes "stats_ok s" and "k + length ais \<le> length (enemy_positions s)"
  shows "\<exists>s' t' g'. special_loop (enumerate k ais) s t g = Inr (s', t', g')"
  using assms
proof (induction ais arbitrary: k s t g)
  case Nil
  then show ?case by simp
next
  case (Cons a ais)
  from Cons.prems(1) have "0 \<le> damage_min (player s)"
    "damage_min (player s) \<le> damage_max (player s)" "damage_max (player s) < 2 ^ 45"
    by (simp_all add: stats_ok_def)
  from roll_special_damage_returns[OF this, of g] obtain d where
    roll: "roll_special_damage (player s) g = Inr (d, rng_next g)" by blast
  from Cons.prems(2) have pg: "py_get (enemy_positions s) (int k) = Inr (enemy_positions s ! k)"
    by (simp add: py_get_def)
  let ?s2 = "add_popup (s \<lparr> enemies := (enemies s)[a := take_damage (enemies s ! a) d] \<rparr>)
               (''-'' @ str_int d)
               (fst (enemy_positions s ! k) + 60, snd (enemy_positions s ! k) - 10) (255, 180, 120)"
  have ok: "stats_ok ?s2" using stats_ok_hit[OF Cons.prems(1)] by (simp add: add_popup_def)
  have len: "Suc k + length ais \<le> length (enemy_positions ?s2)"
    using Cons.prems(2) by (simp add: add_popup_def)
  from Cons.IH[OF ok len, of "t + d" "rng_next g"] roll pg show ?case
    by (simp add: Let_def)
qed

lemma enemy_counter_returns:
  assumes "stats_ok s" and "alive_enemies s \<noteq> []"
  shows "\<exists>s' g'. enemy_counter s g msg = Inr (s', g')"
proof -
  let ?c = "alive_enemies s ! (g 0 mod length (alive_enemies s))"
  from assms(2) have "?c \<in> set (alive_enemies s)" by simp
  then have "?c \<in> set (enemies s)" by (simp add: alive_enemies_def)
  with assms(1) have "damage_min ?c \<le> damage_max ?c"
    by (simp add: stats_ok_def list_all_iff)
  from roll_damage_returns[OF this, of "rng_next g"] obtain d where
    "roll_damage ?c (rng_next g) = Inr (d, rng_next (rng_next g))" by blast
  with assms(2) show ?thesis
    by (simp add: enemy_counter_def choice_def Let_def)
qed

lemma enemy_counter_wf:
  assumes "enemy_counter s g msg = Inr (s', g')" and "well_formed s"
  shows "well_formed s'"
proof -
  from enemy_counter_Inr[OF assms(1)] obtain d m o' ps where
    "s' = s \<lparr> player := take_damage (player s) d, outcome := o', message := m, popups := ps \<rparr>"
    by blast
  with assms(2) show ?thesis by (simp add: well_formed_def)
qed

lemma stats_ok_reclamp: "stats_ok (reclamp s) = stats_ok s"
  by (simp add: stats_ok_def reclamp_fields)

lemma well_formed_reclamp: "stats_ok s \<Longrightarrow> well_formed (reclamp s)"
  by (simp add: well_formed_def stats_ok_reclamp alive_reclamp)
     (simp add: reclamp_def recompute_enemy_positions_def Let_def)

lemma single_hit_stats: "stats_ok s \<Longrightarrow> stats_ok (single_hit s sp d pp)"
proof -
  assume ok: "stats_ok s"
  have "single_hit s sp d pp =
          (s \<lparr> enemies := (enemies s)[alive_indices s ! nat (clamp_target s) :=
                   take_damage (enemies s ! (alive_indices s ! nat (clamp_target s))) d] \<rparr>)
            \<lparr> target_index := clamp_target s,
              player := (player s) \<lparr> special_uses := special_uses (player s) - (if sp then 1 else 0) \<rparr>,
              popups := popups s @ [\<lparr> ptext = ''-'' @ str_int d,
                      ppos = (fst pp + 60, snd pp - 10), pcolor = hit_color \<rparr>] \<rparr>"
    by (simp add: single_hit_def)
  moreover have "stats_ok \<dots>" using stats_ok_hit[OF ok]
    by (simp add: stats_ok_def)
  ultimately show ?thesis by simp
qed

lemma single_hit_positions: "enemy_positions (single_hit s sp d pp) = enemy_positions s"
  by (simp add: single_hit_def)

lemma single_hit_alive_length:
  assumes ne: "alive_indices s \<noteq> []"
    and surv: "\<not> is_defeated (enemies (single_hit s sp d pp) ! (alive_indices s ! nat (clamp_target s)))"
  shows "length (alive_enemies (single_hit s sp d pp)) = length (alive_enemies s)"
proof -
  let ?ei = "alive_indices s ! nat (clamp_target s)"
  from target_alive[OF ne] have ei: "?ei < length (enemies s)"
    and al: "\<not> is_defeated (enemies s ! ?ei)" by simp_all
  from surv ei have "\<not> is_defeated (take_damage (enemies s ! ?ei) d)"
    by (simp add: single_hit_fields)
  with al ei show ?thesis
    by (simp add: alive_enemies_def single_hit_fields length_filter_update)
qed

lemma player_attack_total:
  assumes wf: "well_formed s"
  shows "\<exists>s' g'. player_attack s sp g = Inr (s', g') \<and> well_formed s'"
proof (cases "sp \<and> special_uses (player s) \<le> 0")
  case True
  with wf show ?thesis by (simp add: player_attack_def)
next
  case ok: False
  from wf have st: "stats_ok s" and pos: "length (alive_enemies s) \<le> length (enemy_positions s)"
    by (simp_all add: well_formed_def)
  show ?thesis
  proof (cases "alive_indices s = []")
    case True
    with ok st show ?thesis
      by (simp add: player_attack_none_alive well_formed_def alive_indices_Nil)
  next
    case ne: False
    then have ne': "alive_enemies s \<noteq> []" by (simp add: alive_indices_Nil)
    show ?thesis
    proof (cases "sp \<and> 1 < length (alive_indices s)")
      case True
      with ok have su: "0 < special_uses (player s)" by simp
      from True have len: "1 < length (alive_indices s)" and sp: sp by simp_all
      let ?s1 = "s \<lparr> player := (player s) \<lparr> special_uses := special_uses (player s) - 1 \<rparr> \<rparr>"
      have st1: "stats_ok ?s1" using st by simp
      have "0 + length (alive_indices s) \<le> length (enemy_positions ?s1)"
        using pos by (simp add: length_alive_indices)
      from special_loop_returns[OF st1 this, of 0 g] obtain mid total g2 where
        loop: "special_loop (enumerate 0 (alive_indices s)) ?s1 0 g = Inr (mid, total, g2)"
        by blast
      from special_loop_stats[OF loop st1] have stm: "stats_ok mid" .
      show ?thesis
      proof (cases "alive_enemies mid = []")
        case True
        with loop stm sp show ?thesis
          by (simp add: player_attack_aoe_eq[OF su len] well_formed_def)
      next
        case False
        have wfr: "well_formed (reclamp mid)" using stm by (rule well_formed_reclamp)
        let ?msg = "\<lambda>enemy_damage. ''Special hit all enemies for '' @ str_int total
                    @ '' total. Enemy hit back for '' @ str_int enemy_damage @ ''.''"
        from False have ner: "alive_enemies (reclamp mid) \<noteq> []" by (simp add: alive_reclamp)
        from stm have str: "stats_ok (reclamp mid)" by (simp add: stats_ok_reclamp)
        from enemy_counter_returns[OF str ner, of g2 ?msg] obtain s' g' where
          ec: "enemy_counter (reclamp mid) g2 ?msg = Inr (s', g')"
          by blast
        from enemy_counter_wf[OF ec wfr] ec loop False sp show ?thesis
          by (simp add: player_attack_aoe_eq[OF su len])
      qed
    next
      case False
      let ?roll = "if sp then roll_special_damage (player s) g else roll_damage (player s) g"
      from st have pl: "0 \<le> damage_min (player s)"
        "damage_min (player s) \<le> damage_max (player s)" "damage_max (player s) < 2 ^ 45"
        by (simp_all add: stats_ok_def)
      from roll_special_damage_returns[OF pl, of g] roll_damage_returns[OF pl(2), of g]
      obtain d g2 where roll: "?roll = Inr (d, g2)" by (cases sp) auto
      from clamp_target_range[OF ne'] pos have
        pg: "py_get (enemy_positions s) (clamp_target s)
               = Inr (enemy_positions s ! nat (clamp_target s))"
        by (simp add: py_get_def)
      let ?mid = "single_hit s sp d (enemy_positions s ! nat (clamp_target s))"
      let ?msg = "\<lambda>enemy_damage. ''You dealt '' @ str_int d
                       @ ''. Enemy hit back for '' @ str_int enemy_damage @ ''.''"
      have stm: "stats_ok ?mid" using st by (rule single_hit_stats)
      show ?thesis
      proof (cases "alive_enemies ?mid = []")
        case True
        with stm show ?thesis
          unfolding player_attack_single_eq[OF ok ne False] roll pg
          by (simp add: well_formed_def)
      next
        case alive: False
        show ?thesis
        proof (cases "is_defeated (enemies ?mid ! (alive_indices s ! nat (clamp_target s)))")
          case True
          have wfr: "well_formed (reclamp ?mid)" using stm by (rule well_formed_reclamp)
          from alive have ner: "alive_enemies (reclamp ?mid) \<noteq> []"
            by (simp add: alive_reclamp)
          from stm have str: "stats_ok (reclamp ?mid)" by (simp add: stats_ok_reclamp)
          from enemy_counter_returns[OF str ner, of g2 ?msg] obtain s' g' where
            ec: "enemy_counter (reclamp ?mid) g2 ?msg = Inr (s', g')"
            by blast
          from enemy_counter_wf[OF ec wfr] ec alive True show ?thesis
            unfolding player_attack_single_eq[OF ok ne False] roll pg by simp
        next
          case surv: False
          from single_hit_alive_length[OF ne surv] pos stm have wfm: "well_formed ?mid"
            by (simp add: well_formed_def single_hit_positions)
          from enemy_counter_returns[OF stm alive, of g2 ?msg] obtain s' g' where
            ec: "enemy_counter ?mid g2 ?msg = Inr (s', g')" by blast
          from enemy_counter_wf[OF ec wfm] ec alive surv show ?thesis
            unfolding player_attack_single_eq[OF ok ne False] roll pg by simp
        qed
      qed
    qed
  qed
qed

lemma handle_event_total:
  assumes wf: "well_formed s"
  shows "\<exists>s' g'. handle_event s ev g = Inr (s', g') \<and> well_formed s'"
proof (cases "outcome s = None")
  case False
  with wf show ?thesis by (simp add: handle_event_decided)
next
  case und: True
  show ?thesis
  proof (cases "attack_event s ev")
    case True
    with und player_attack_total[OF wf, of False g] show ?thesis
      by (simp add: handle_attack_event)
  next
    case na: False
    show ?thesis
    proof (cases "special_event s ev")
      case True
      show ?thesis
      proof (cases "0 < special_uses (player s)")
        case True
        with und \<open>special_event s ev\<close> player_attack_total[OF wf, of True g] show ?thesis
          by (simp add: handle_special_event special_or_message_def)
      next
        case False
        with und \<open>special_event s ev\<close> wf show ?thesis
          by (simp add: handle_special_event special_or_message_def well_formed_def)
      qed
    next
      case False
      from handle_event_other[OF na False, of g] obtain t where
        "handle_event s ev g = Inr (s \<lparr> target_index := t \<rparr>, g)" by blast
      with wf show ?thesis by (simp add: well_formed_def)
    qed
  qed
qed

lemma Battle_init_well_formed:
  assumes "0 \<le> damage_min p" "damage_min p \<le> damage_max p" "damage_max p < 2 ^ 45"
    and "list_all (\<lambda>c. damage_min c \<le> damage_max c)
           (case enemy of Many xs \<Rightarrow> xs | One c \<Rightarrow> [c])"
  shows "\<exists>s. Battle_init p enemy l = Inr s \<and> well_formed s"
  using assms
  by (simp add: Battle_init_def Let_def well_formed_def stats_ok_def
      recompute_enemy_positions_def alive_enemies_def)

end
